theory Spec2Isabelle
  imports Main
begin

section \<open>Errors\<close>

text \<open>
  Every exception that \<^verbatim>\<open>S3Manager.py\<close> can raise is a value.
  \<^item> \<open>ValueError\<close>: \<^verbatim>\<open>raise ValueError("Invalid DT_RULE value")\<close> in \<^verbatim>\<open>format_datetime\<close>;
  \<^item> \<open>ClientError code\<close>: botocore's \<^verbatim>\<open>ClientError\<close> with \<^verbatim>\<open>e.response['Error']['Code'] = code\<close>;
  \<^item> \<open>RemoteError msg\<close>: any other exception of the S3 client (connection, credentials,
    a failed transfer), which no \<^verbatim>\<open>except\<close> clause of the module matches;
  \<^item> \<open>IntegrityError\<close>: sqlite3 refusing an \<^verbatim>\<open>INSERT\<close> that repeats a primary key;
  \<^item> \<open>OperationalError\<close>: sqlite3 running a statement on a database without the table
    \<^verbatim>\<open>s3_files\<close>.
\<close>

datatype error =
    ValueError
  | ClientError string
  | RemoteError string
  | IntegrityError
  | OperationalError

section \<open>Wall-clock time and \<^verbatim>\<open>strftime\<close>\<close>

text \<open>
  \<^verbatim>\<open>datetime.now()\<close> returns a naive local date and time. Its fields are the record's
  fields; the module reads the clock again at every call, so every function below takes
  the value read as an argument.
\<close>

record datetime =
  year :: nat
  month :: nat
  day :: nat
  hour :: nat
  minute :: nat
  second :: nat
  microsecond :: nat

definition is_leap :: "nat \<Rightarrow> bool" where
  "is_leap y = (y mod 4 = 0 \<and> (y mod 100 \<noteq> 0 \<or> y mod 400 = 0))"

definition days_in_month :: "nat \<Rightarrow> nat \<Rightarrow> nat" where
  "days_in_month y m =
     (if m = 2 then (if is_leap y then 29 else 28)
      else if m = 4 \<or> m = 6 \<or> m = 9 \<or> m = 11 then 30 else 31)"

text \<open>
  The values \<^verbatim>\<open>datetime.now()\<close> can return: a date of the Gregorian calendar and a time
  of day. Years are taken with four digits (1000 to 9999), where every platform's
  \<^verbatim>\<open>%Y\<close> prints the same text.
\<close>

definition valid_datetime :: "datetime \<Rightarrow> bool" where
  "valid_datetime t =
     (1000 \<le> year t \<and> year t \<le> 9999 \<and> 1 \<le> month t \<and> month t \<le> 12 \<and>
      1 \<le> day t \<and> day t \<le> days_in_month (year t) (month t) \<and>
      hour t < 24 \<and> minute t < 60 \<and> second t < 60 \<and> microsecond t < 1000000)"

text \<open>The calendar arithmetic of \<^verbatim>\<open>datetime\<close>: \<^verbatim>\<open>_days_before_year\<close>,
  \<^verbatim>\<open>_days_before_month\<close> and \<^verbatim>\<open>_ymd2ord\<close> (1 January of year 1 is day 1).\<close>

definition days_before_year :: "nat \<Rightarrow> nat" where
  "days_before_year y =
     (let p = y - 1 in p * 365 + p div 4 + p div 400 - p div 100)"

definition days_before_month :: "nat \<Rightarrow> nat \<Rightarrow> nat" where
  "days_before_month y m =
     ([0, 0, 31, 59, 90, 120, 151, 181, 212, 243, 273, 304, 334] ! (if m \<le> 12 then m else 0))
       + (if m > 2 \<and> is_leap y then 1 else 0)"

definition ymd2ord :: "datetime \<Rightarrow> nat" where
  "ymd2ord t = days_before_year (year t) + days_before_month (year t) (month t) + day t"

text \<open>
  The fields \<^verbatim>\<open>strftime\<close> receives from \<^verbatim>\<open>timetuple()\<close>: \<open>tm_yday\<close> counts from 0,
  and \<open>tm_wday\<close> counts from Sunday (\<^verbatim>\<open>time.strftime\<close> turns Python's Monday-based
  weekday \<^verbatim>\<open>(ord + 6) % 7\<close> into C's by adding one modulo 7).
\<close>

definition tm_yday :: "datetime \<Rightarrow> nat" where
  "tm_yday t = days_before_month (year t) (month t) + day t - 1"

definition tm_wday :: "datetime \<Rightarrow> nat" where
  "tm_wday t = ((ymd2ord t + 6) mod 7 + 1) mod 7"

text \<open>\<^verbatim>\<open>%U\<close>: the week of the year, weeks starting on Sunday; the days before the first
  Sunday are in week 0.\<close>

definition week_of_year :: "datetime \<Rightarrow> nat" where
  "week_of_year t = (tm_yday t + 7 - tm_wday t) div 7"

definition digit :: "nat \<Rightarrow> char" where
  "digit d = char_of (48 + d)"

text \<open>Zero-padded decimals of two and four digits (\<^verbatim>\<open>%m %d %H %M %S %U\<close> and \<^verbatim>\<open>%Y\<close>).\<close>

definition dec2 :: "nat \<Rightarrow> string" where
  "dec2 n = [digit (n div 10 mod 10), digit (n mod 10)]"

definition dec4 :: "nat \<Rightarrow> string" where
  "dec4 n = [digit (n div 1000 mod 10), digit (n div 100 mod 10),
             digit (n div 10 mod 10), digit (n mod 10)]"

section \<open>Key builder\<close>

text \<open>
  \<^verbatim>\<open>format_datetime()\<close>, with the configuration constant \<^verbatim>\<open>DT_RULE\<close> and the clock
  reading \<^verbatim>\<open>now\<close> as arguments. The chain of comparisons is the source's.
\<close>

definition format_datetime :: "string \<Rightarrow> datetime \<Rightarrow> error + string" where
  "format_datetime DT_RULE now =
     (if DT_RULE = ''seconds'' then
        Inr (dec4 (year now) @ dec2 (month now) @ dec2 (day now) @
             dec2 (hour now) @ dec2 (minute now) @ dec2 (second now))
      else if DT_RULE = ''hours'' then
        Inr (dec4 (year now) @ dec2 (month now) @ dec2 (day now) @ dec2 (hour now))
      else if DT_RULE = ''days'' then
        Inr (dec4 (year now) @ dec2 (month now) @ dec2 (day now))
      else if DT_RULE = ''weeks'' then
        Inr (dec4 (year now) @ dec2 (week_of_year now))
      else if DT_RULE = ''months'' then
        Inr (dec4 (year now) @ dec2 (month now))
      else if DT_RULE = ''years'' then
        Inr (dec4 (year now))
      else if DT_RULE = ''never'' then
        Inr ''''
      else Inl ValueError)"

text \<open>The two f-strings of \<^verbatim>\<open>build_s3_filename\<close>, chosen by the truth value of
  \<^verbatim>\<open>datetime_str\<close> (a string is true when it is not empty).\<close>

definition join_key :: "string \<Rightarrow> string \<Rightarrow> string \<Rightarrow> string" where
  "join_key mac datetime_str filename =
     (if datetime_str \<noteq> [] then mac @ ''/'' @ datetime_str @ ''/'' @ filename
      else mac @ ''/'' @ filename)"

definition build_s3_filename :: "string \<Rightarrow> datetime \<Rightarrow> string \<Rightarrow> string \<Rightarrow> error + string" where
  "build_s3_filename DT_RULE now mac filename =
     (case format_datetime DT_RULE now of
        Inl e \<Rightarrow> Inl e
      | Inr datetime_str \<Rightarrow> Inr (join_key mac datetime_str filename))"

text \<open>The granularities the configuration may name.\<close>

definition granularities :: "string set" where
  "granularities =
     {''seconds'', ''hours'', ''days'', ''weeks'', ''months'', ''years'', ''never''}"

text \<open>
  What "a boundary of the granularity lies between two clock readings" means, written
  from the calendar and not from the formatted text: the readings differ in the fields
  down to the granularity. Weeks start on Sunday, as \<^verbatim>\<open>%U\<close> counts them (day 7 of
  the proleptic calendar is a Sunday), and a new year starts a new week bucket.
\<close>

definition sunday_week :: "datetime \<Rightarrow> nat" where
  "sunday_week t = ymd2ord t div 7"

definition boundary_between :: "string \<Rightarrow> datetime \<Rightarrow> datetime \<Rightarrow> bool" where
  "boundary_between g a b =
     (if g = ''seconds'' then
        (year a, month a, day a, hour a, minute a, second a) \<noteq>
        (year b, month b, day b, hour b, minute b, second b)
      else if g = ''hours'' then
        (year a, month a, day a, hour a) \<noteq> (year b, month b, day b, hour b)
      else if g = ''days'' then (year a, month a, day a) \<noteq> (year b, month b, day b)
      else if g = ''weeks'' then year a \<noteq> year b \<or> sunday_week a \<noteq> sunday_week b
      else if g = ''months'' then (year a, month a) \<noteq> (year b, month b)
      else if g = ''years'' then year a \<noteq> year b
      else False)"

section \<open>The metadata cache: table \<^verbatim>\<open>s3_files\<close>\<close>

text \<open>
  A row is \<^verbatim>\<open>(filename TEXT PRIMARY KEY, size INTEGER, updated_at TEXT)\<close>; the table is the
  list of its rows in insertion order. The database file is \<open>None\<close> while it has no table
  \<^verbatim>\<open>s3_files\<close> (a missing file is created empty by \<^verbatim>\<open>sqlite3.connect\<close>, still without
  the table), and \<open>Some rows\<close> once the table exists.
\<close>

type_synonym row = "string \<times> int \<times> string"
type_synonym table = "row list"
type_synonym database = "table option"

text \<open>The constraint \<^verbatim>\<open>PRIMARY KEY\<close>: no two rows share a filename.\<close>

definition primary_key :: "table \<Rightarrow> bool" where
  "primary_key t = distinct (map fst t)"

definition well_formed :: "database \<Rightarrow> bool" where
  "well_formed db = (case db of None \<Rightarrow> True | Some t \<Rightarrow> primary_key t)"

text \<open>The SQL statements of the module, with their bound parameters in the order of the
  question marks.\<close>

datatype statement =
    CREATE_TABLE_IF_NOT_EXISTS
  | SELECT_ALL
  | SELECT_WHERE string int
  | INSERT string int string
  | UPDATE int string string
  | DELETE string
  | INSERT_OR_REPLACE string int string

text \<open>
  \<^verbatim>\<open>cursor.execute\<close> on a table that exists: the rows afterwards, or the exception.
  \<^verbatim>\<open>INSERT\<close> is refused when the filename is already a key; \<^verbatim>\<open>INSERT OR REPLACE\<close>
  deletes the row with that key first.
\<close>

fun run :: "statement \<Rightarrow> table \<Rightarrow> error + table" where
  "run CREATE_TABLE_IF_NOT_EXISTS t = Inr t"
| "run SELECT_ALL t = Inr t"
| "run (SELECT_WHERE filename sz) t = Inr t"
| "run (INSERT filename sz updated_at) t =
     (if filename \<in> set (map fst t) then Inl IntegrityError
      else Inr (t @ [(filename, sz, updated_at)]))"
| "run (UPDATE sz updated_at filename) t =
     Inr (map (\<lambda>(f, s, u). if f = filename then (f, sz, updated_at) else (f, s, u)) t)"
| "run (DELETE filename) t = Inr (filter (\<lambda>(f, s, u). f \<noteq> filename) t)"
| "run (INSERT_OR_REPLACE filename sz updated_at) t =
     Inr (filter (\<lambda>(f, s, u). f \<noteq> filename) t @ [(filename, sz, updated_at)])"

text \<open>\<^verbatim>\<open>cursor.execute\<close> on the database as a connection sees it: every statement but
  \<^verbatim>\<open>CREATE TABLE IF NOT EXISTS\<close> fails when the table is missing.\<close>

definition execute :: "statement \<Rightarrow> database \<Rightarrow> error + database" where
  "execute st db =
     (case db of
        None \<Rightarrow> (if st = CREATE_TABLE_IF_NOT_EXISTS then Inr (Some []) else Inl OperationalError)
      | Some t \<Rightarrow> (case run st t of Inl e \<Rightarrow> Inl e | Inr t' \<Rightarrow> Inr (Some t')))"

text \<open>The rows the two queries return: \<^verbatim>\<open>fetchall()\<close> after
  \<^verbatim>\<open>SELECT filename, size FROM s3_files\<close>, and \<^verbatim>\<open>fetchone()\<close> after
  \<^verbatim>\<open>SELECT filename, size FROM s3_files WHERE filename = ? AND size = ?\<close>.\<close>

definition fetchall :: "table \<Rightarrow> (string \<times> int) list" where
  "fetchall t = map (\<lambda>(f, s, u). (f, s)) t"

definition fetchone :: "string \<Rightarrow> int \<Rightarrow> table \<Rightarrow> (string \<times> int) option" where
  "fetchone filename sz t =
     (case filter (\<lambda>(f, s, u). f = filename \<and> s = sz) t of
        [] \<Rightarrow> None
      | (f, s, u) # rest \<Rightarrow> Some (f, s))"

text \<open>The cache as the specification lists it: the set of (identity, size) pairs.\<close>

definition list_all_records :: "database \<Rightarrow> (string \<times> int) set" where
  "list_all_records db = (case db of None \<Rightarrow> {} | Some t \<Rightarrow> set (fetchall t))"

definition records :: "database \<Rightarrow> row set" where
  "records db = (case db of None \<Rightarrow> {} | Some t \<Rightarrow> set t)"

section \<open>Python dictionaries\<close>

text \<open>
  A \<^verbatim>\<open>dict\<close> keeps its keys in the order of their first insertion; assigning to a key
  that is present replaces its value in place. \<open>dict_of\<close> is the comprehension
  \<^verbatim>\<open>{k: v for (k, v) in pairs}\<close>.
\<close>

fun dict_set :: "('k \<times> 'v) list \<Rightarrow> 'k \<Rightarrow> 'v \<Rightarrow> ('k \<times> 'v) list" where
  "dict_set [] k v = [(k, v)]"
| "dict_set ((k', v') # d) k v =
     (if k' = k then (k', v) # d else (k', v') # dict_set d k v)"

definition dict_of :: "('k \<times> 'v) list \<Rightarrow> ('k \<times> 'v) list" where
  "dict_of pairs = foldl (\<lambda>d (k, v). dict_set d k v) [] pairs"

section \<open>What the module does to its collaborators\<close>

text \<open>
  The trace of an operation lists, in order, the statements it ran on the database, the
  uploads that returned (\<^verbatim>\<open>s3.upload_file(file_path, BUCKET_NAME, s3_key)\<close> with its path
  and key) and the lines it printed.
\<close>

datatype event =
    Executed statement
  | Uploaded string string
  | Printed string

text \<open>
  The state of an operation while it runs: how often \<^verbatim>\<open>datetime.now()\<close> has been read
  (the \<open>n\<close>-th reading returns \<open>now n\<close>), the database as committed on disk, the database as
  the operation's open connection sees it (the committed rows with its own uncommitted
  changes), and the trace so far. \<^verbatim>\<open>conn.commit()\<close> makes the view the committed state;
  an exception leaves the connection without a commit, and the committed state stays.
\<close>

record conn =
  clock :: nat
  persisted :: database
  view :: database
  trace :: "event list"

text \<open>\<^verbatim>\<open>DATETIME_FORMAT = '%Y-%m-%dT%H:%M:%S.%f'[:-4]\<close> is the text
  \<^verbatim>\<open>%Y-%m-%dT%H:%M:%\<close>: the slice cuts the format, not the result. The C library copies
  the lone \<^verbatim>\<open>%\<close> at the end.\<close>

definition strftime_DATETIME_FORMAT :: "datetime \<Rightarrow> string" where
  "strftime_DATETIME_FORMAT t =
     dec4 (year t) @ ''-'' @ dec2 (month t) @ ''-'' @ dec2 (day t) @ ''T'' @
     dec2 (hour t) @ '':'' @ dec2 (minute t) @ '':%''"

section \<open>Remote listing reconciler\<close>

text \<open>\<^verbatim>\<open>ensure_database_exists()\<close>: its own connection, one statement, committed. (The line
  it prints when the file is missing is not part of the model.)\<close>

definition ensure_database_exists :: "database \<Rightarrow> database" where
  "ensure_database_exists db =
     (case execute CREATE_TABLE_IF_NOT_EXISTS db of Inl e \<Rightarrow> db | Inr db' \<Rightarrow> db')"

text \<open>One turn of the loop \<^verbatim>\<open>for filename, size in current_files.items()\<close>.\<close>

definition sync_item ::
  "(nat \<Rightarrow> datetime) \<Rightarrow> (string \<times> int) list \<Rightarrow> string \<Rightarrow> int \<Rightarrow> conn \<Rightarrow> error option \<times> conn" where
  "sync_item now existing_files filename sz c =
     (let updated_at = strftime_DATETIME_FORMAT (now (clock c));
          c1 = c\<lparr>clock := clock c + 1\<rparr>
      in case map_of existing_files filename of
           Some old \<Rightarrow>
             if old \<noteq> sz then
               (case execute (UPDATE sz updated_at filename) (view c1) of
                  Inl e \<Rightarrow> (Some e, c1)
                | Inr v \<Rightarrow>
                    (None, c1\<lparr>view := v,
                       trace := trace c1 @ [Executed (UPDATE sz updated_at filename),
                                             Printed (''Updated file in database: '' @ filename)]\<rparr>))
             else (None, c1)
         | None \<Rightarrow>
             (case execute (INSERT filename sz updated_at) (view c1) of
                Inl e \<Rightarrow> (Some e, c1)
              | Inr v \<Rightarrow>
                  (None, c1\<lparr>view := v,
                     trace := trace c1 @ [Executed (INSERT filename sz updated_at),
                                           Printed (''Added to database: '' @ filename)]\<rparr>)))"

fun sync_items ::
  "(nat \<Rightarrow> datetime) \<Rightarrow> (string \<times> int) list \<Rightarrow> (string \<times> int) list \<Rightarrow> conn \<Rightarrow> error option \<times> conn" where
  "sync_items now existing_files [] c = (None, c)"
| "sync_items now existing_files ((filename, sz) # items) c =
     (case sync_item now existing_files filename sz c of
        (Some e, c') \<Rightarrow> (Some e, c')
      | (None, c') \<Rightarrow> sync_items now existing_files items c')"

text \<open>The loop \<^verbatim>\<open>for filename in existing_files\<close> that deletes what S3 no longer has.\<close>

definition delete_item :: "(string \<times> int) list \<Rightarrow> string \<Rightarrow> conn \<Rightarrow> error option \<times> conn" where
  "delete_item current_files filename c =
     (if filename \<notin> set (map fst current_files) then
        (case execute (DELETE filename) (view c) of
           Inl e \<Rightarrow> (Some e, c)
         | Inr v \<Rightarrow>
             (None, c\<lparr>view := v,
                trace := trace c @ [Executed (DELETE filename),
                                     Printed (''Deleted from database: '' @ filename)]\<rparr>))
      else (None, c))"

fun delete_missing :: "(string \<times> int) list \<Rightarrow> string list \<Rightarrow> conn \<Rightarrow> error option \<times> conn" where
  "delete_missing current_files [] c = (None, c)"
| "delete_missing current_files (filename # rest) c =
     (case delete_item current_files filename c of
        (Some e, c') \<Rightarrow> (Some e, c')
      | (None, c') \<Rightarrow> delete_missing current_files rest c')"

text \<open>\<^verbatim>\<open>response.get('Contents', [])\<close>: a response without the key \<^verbatim>\<open>Contents\<close> (an empty
  bucket) is \<open>None\<close>.\<close>

definition get_Contents :: "(string \<times> int) list option \<Rightarrow> (string \<times> int) list" where
  "get_Contents response = (case response of None \<Rightarrow> [] | Some contents \<Rightarrow> contents)"

text \<open>
  \<^verbatim>\<open>update_local_database()\<close>. The argument \<open>list_objects_v2\<close> is what
  \<^verbatim>\<open>s3.list_objects_v2(Bucket=BUCKET_NAME)\<close> does: it raises, or it returns a response whose
  \<^verbatim>\<open>Contents\<close> is absent (\<open>None\<close>) or the list of \<^verbatim>\<open>(Key, Size)\<close>. The result is the
  exception that leaves the function (\<open>None\<close> when it returns), the committed database and
  the trace.
\<close>

definition update_local_database ::
  "(nat \<Rightarrow> datetime) \<Rightarrow> (error + (string \<times> int) list option) \<Rightarrow> database \<Rightarrow>
     error option \<times> database \<times> event list" where
  "update_local_database now list_objects_v2 db =
     (let db1 = ensure_database_exists db;
          t0 = [Executed CREATE_TABLE_IF_NOT_EXISTS]
      in case list_objects_v2 of
           Inl e \<Rightarrow>
             (case e of
                ClientError code \<Rightarrow>
                  if code = ''AllAccessDisabled'' then
                    (None, db1, t0 @
                       [Printed ''Access to the S3 bucket is disabled. Please check permissions.''])
                  else (Some e, db1, t0)
              | _ \<Rightarrow> (Some e, db1, t0))
         | Inr response \<Rightarrow>
             (let s3_files = get_Contents response
              in case db1 of
                   None \<Rightarrow> (Some OperationalError, db1, t0)
                 | Some t \<Rightarrow>
                     (let existing_files = dict_of (fetchall t);
                          current_files = dict_of s3_files;
                          c0 = \<lparr>clock = 0, persisted = db1, view = db1,
                                trace = t0 @ [Executed SELECT_ALL]\<rparr>
                      in case sync_items now existing_files current_files c0 of
                           (Some e, c1) \<Rightarrow> (Some e, persisted c1, trace c1)
                         | (None, c1) \<Rightarrow>
                             (case delete_missing current_files (map fst existing_files) c1 of
                                (Some e, c2) \<Rightarrow> (Some e, persisted c2, trace c2)
                              | (None, c2) \<Rightarrow> (None, view c2, trace c2)))))"

section \<open>Upload decision\<close>

text \<open>
  \<^verbatim>\<open>needFile(mac, filename, size)\<close>, with the clock reading its \<^verbatim>\<open>build_s3_filename\<close>
  takes. It opens a connection, runs one \<^verbatim>\<open>SELECT\<close> and closes without a commit. The
  result is the value or exception, the committed database afterwards and the trace.
\<close>

definition needFile ::
  "string \<Rightarrow> datetime \<Rightarrow> database \<Rightarrow> string \<Rightarrow> string \<Rightarrow> int \<Rightarrow>
     (error + bool) \<times> database \<times> event list" where
  "needFile DT_RULE now db mac filename sz =
     (case build_s3_filename DT_RULE now mac filename of
        Inl e \<Rightarrow> (Inl e, db, [])
      | Inr s3_filename \<Rightarrow>
          (case execute (SELECT_WHERE s3_filename sz) db of
             Inl e \<Rightarrow> (Inl e, db, [])
           | Inr v \<Rightarrow>
               (let result = (case v of None \<Rightarrow> None | Some t \<Rightarrow> fetchone s3_filename sz t)
                in (Inr (result = None), db, [Executed (SELECT_WHERE s3_filename sz)]))))"

section \<open>Upload orchestrator\<close>

text \<open>What \<^verbatim>\<open>os.listdir\<close>, \<^verbatim>\<open>os.path.isdir\<close>, \<^verbatim>\<open>os.path.isfile\<close> and
  \<^verbatim>\<open>os.path.getsize\<close> find: a regular file with its size, a directory with its entries,
  or something that is neither.\<close>

datatype node =
    RegularFile int
  | Directory "(string \<times> node) list"
  | Special

text \<open>\<^verbatim>\<open>os.path.join\<close> of two components (POSIX).\<close>

definition path_join :: "string \<Rightarrow> string \<Rightarrow> string" where
  "path_join a b =
     (if b \<noteq> [] \<and> hd b = CHR ''/'' then b
      else if a = [] \<or> last a = CHR ''/'' then a @ b
      else a @ ''/'' @ b)"

text \<open>
  The body of the inner loop for one regular file. \<open>upload_file file_path s3_key\<close> is what
  \<^verbatim>\<open>s3.upload_file\<close> does with these arguments: \<open>None\<close> when the transfer succeeds and the
  call returns, \<open>Some e\<close> when it raises. \<^verbatim>\<open>needFile\<close> reads the committed database through
  a connection of its own; the \<^verbatim>\<open>INSERT OR REPLACE\<close> goes to the connection of
  \<^verbatim>\<open>upload_files\<close>, which commits after the loops.
\<close>

definition upload_one ::
  "string \<Rightarrow> (nat \<Rightarrow> datetime) \<Rightarrow> (string \<Rightarrow> string \<Rightarrow> error option) \<Rightarrow>
     string \<Rightarrow> string \<Rightarrow> string \<Rightarrow> int \<Rightarrow> conn \<Rightarrow> error option \<times> conn" where
  "upload_one DT_RULE now upload_file file_path mac filename sz c =
     (case needFile DT_RULE (now (clock c)) (persisted c) mac filename sz of
        (need, db', q) \<Rightarrow>
          (let c1 = c\<lparr>clock := clock c + 1, persisted := db', trace := trace c @ q\<rparr>
           in case need of
                Inl e \<Rightarrow> (Some e, c1)
              | Inr False \<Rightarrow> (None, c1)
              | Inr True \<Rightarrow>
                  (let c2 = c1\<lparr>clock := clock c1 + 1\<rparr>
                   in case build_s3_filename DT_RULE (now (clock c1)) mac filename of
                        Inl e \<Rightarrow> (Some e, c2)
                      | Inr s3_key \<Rightarrow>
                          (case upload_file file_path s3_key of
                             Some e \<Rightarrow> (Some e, c2)
                           | None \<Rightarrow>
                               (let c3 = c2\<lparr>clock := clock c2 + 1,
                                      trace := trace c2 @ [Uploaded file_path s3_key,
                                                            Printed (''Uploaded: '' @ s3_key)]\<rparr>;
                                    updated_at = strftime_DATETIME_FORMAT (now (clock c2))
                                in case execute (INSERT_OR_REPLACE s3_key sz updated_at) (view c3) of
                                     Inl e \<Rightarrow> (Some e, c3)
                                   | Inr v \<Rightarrow>
                                       (None, c3\<lparr>view := v,
                                          trace := trace c3 @
                                            [Executed (INSERT_OR_REPLACE s3_key sz updated_at)]\<rparr>))))))"

text \<open>The inner loop \<^verbatim>\<open>for filename in os.listdir(mac_path)\<close>: entries that are not regular
  files are skipped.\<close>

fun upload_mac_files ::
  "string \<Rightarrow> (nat \<Rightarrow> datetime) \<Rightarrow> (string \<Rightarrow> string \<Rightarrow> error option) \<Rightarrow>
     string \<Rightarrow> string \<Rightarrow> (string \<times> node) list \<Rightarrow> conn \<Rightarrow> error option \<times> conn" where
  "upload_mac_files DT_RULE now upload_file mac_path mac [] c = (None, c)"
| "upload_mac_files DT_RULE now upload_file mac_path mac ((filename, nd) # rest) c =
     (case nd of
        RegularFile sz \<Rightarrow>
          (case upload_one DT_RULE now upload_file (path_join mac_path filename) mac filename sz c of
             (Some e, c') \<Rightarrow> (Some e, c')
           | (None, c') \<Rightarrow> upload_mac_files DT_RULE now upload_file mac_path mac rest c')
      | _ \<Rightarrow> upload_mac_files DT_RULE now upload_file mac_path mac rest c)"

text \<open>The outer loop \<^verbatim>\<open>for mac in os.listdir(data_directory)\<close>: entries that are not
  directories are skipped.\<close>

fun upload_macs ::
  "string \<Rightarrow> (nat \<Rightarrow> datetime) \<Rightarrow> (string \<Rightarrow> string \<Rightarrow> error option) \<Rightarrow>
     string \<Rightarrow> (string \<times> node) list \<Rightarrow> conn \<Rightarrow> error option \<times> conn" where
  "upload_macs DT_RULE now upload_file data_directory [] c = (None, c)"
| "upload_macs DT_RULE now upload_file data_directory ((mac, nd) # rest) c =
     (case nd of
        Directory entries \<Rightarrow>
          (case upload_mac_files DT_RULE now upload_file (path_join data_directory mac) mac entries c of
             (Some e, c') \<Rightarrow> (Some e, c')
           | (None, c') \<Rightarrow> upload_macs DT_RULE now upload_file data_directory rest c')
      | _ \<Rightarrow> upload_macs DT_RULE now upload_file data_directory rest c)"

text \<open>
  \<^verbatim>\<open>upload_files(data_directory)\<close>, with the entries of the directory as \<open>listing\<close>. The
  commit is the last statement: an exception in the loops leaves the function before it,
  and the committed database is what it was.
\<close>

definition upload_files ::
  "string \<Rightarrow> (nat \<Rightarrow> datetime) \<Rightarrow> (string \<Rightarrow> string \<Rightarrow> error option) \<Rightarrow>
     string \<Rightarrow> (string \<times> node) list \<Rightarrow> database \<Rightarrow> error option \<times> database \<times> event list" where
  "upload_files DT_RULE now upload_file data_directory listing db =
     (case upload_macs DT_RULE now upload_file data_directory listing
             \<lparr>clock = 0, persisted = db, view = db, trace = []\<rparr> of
        (Some e, c) \<Rightarrow> (Some e, persisted c, trace c)
      | (None, c) \<Rightarrow> (None, view c, trace c))"

section \<open>Predicates of the statements and invariants of the loops\<close>

text \<open>
  "A record is upserted only after its transfer has completed", read on a trace: every
  \<^verbatim>\<open>INSERT OR REPLACE\<close> follows an upload of the same key that returned without an
  exception, with nothing but printed lines between the two. The second argument is the
  key of the upload that has just returned, if any.
\<close>

fun upserts_follow_uploads ::
  "(string \<Rightarrow> string \<Rightarrow> error option) \<Rightarrow> string option \<Rightarrow> event list \<Rightarrow> bool" where
  "upserts_follow_uploads upload_file prev [] = True"
| "upserts_follow_uploads upload_file prev (e # es) =
     (case e of
        Uploaded p k \<Rightarrow>
          upload_file p k = None \<and> upserts_follow_uploads upload_file (Some k) es
      | Printed m \<Rightarrow> upserts_follow_uploads upload_file prev es
      | Executed st \<Rightarrow>
          (case st of
             INSERT_OR_REPLACE k s u \<Rightarrow>
               prev = Some k \<and> upserts_follow_uploads upload_file None es
           | _ \<Rightarrow> upserts_follow_uploads upload_file None es))"

text \<open>Whether a statement writes the row of a given filename.\<close>

fun writes_key :: "statement \<Rightarrow> string \<Rightarrow> bool" where
  "writes_key (INSERT filename sz updated_at) k = (filename = k)"
| "writes_key (UPDATE sz updated_at filename) k = (filename = k)"
| "writes_key (DELETE filename) k = (filename = k)"
| "writes_key (INSERT_OR_REPLACE filename sz updated_at) k = (filename = k)"
| "writes_key CREATE_TABLE_IF_NOT_EXISTS k = False"
| "writes_key SELECT_ALL k = False"
| "writes_key (SELECT_WHERE filename sz) k = False"

text \<open>A clock for the examples: 9 March 2024, 07:05, the seconds counting the readings.\<close>

definition clock0 :: "nat \<Rightarrow> datetime" where
  "clock0 n = \<lparr>year = 2024, month = 3, day = 9, hour = 7, minute = 5, second = n mod 60,
     microsecond = 0\<rparr>"

text \<open>The invariant of the two loops for a row they must leave alone: the row is in the
  view of the connection, and no statement run so far writes its filename.\<close>

definition untouched :: "string \<Rightarrow> int \<Rightarrow> string \<Rightarrow> conn \<Rightarrow> bool" where
  "untouched k s u c =
     ((\<exists>t. view c = Some t \<and> (k, s, u) \<in> set t) \<and>
      (\<forall>st. Executed st \<in> set (trace c) \<longrightarrow> \<not> writes_key st k))"

text \<open>The invariant of the upload loops: a stretch of the run leaves the committed
  database alone, and what it adds to the trace keeps every upsert behind its upload
  whatever came before.\<close>

definition chunk :: "(string \<Rightarrow> string \<Rightarrow> error option) \<Rightarrow> conn \<Rightarrow> conn \<Rightarrow> bool" where
  "chunk upload_file c c' =
     (persisted c' = persisted c \<and>
      (\<exists>evs. trace c' = trace c @ evs \<and> (\<forall>q. upserts_follow_uploads upload_file q evs)))"

section \<open>Properties of the key builder\<close>

lemma digit_simps:
  "digit 0 = CHR ''0''" "digit 1 = CHR ''1''" "digit 2 = CHR ''2''" "digit 3 = CHR ''3''"
  "digit 4 = CHR ''4''" "digit 5 = CHR ''5''" "digit 6 = CHR ''6''" "digit 7 = CHR ''7''"
  "digit 8 = CHR ''8''" "digit 9 = CHR ''9''"
  by code_simp+

lemma format_datetime_known:
  "DT_RULE \<in> granularities \<Longrightarrow> \<exists>s. format_datetime DT_RULE now = Inr s"
  unfolding granularities_def format_datetime_def by auto

lemma format_datetime_unknown:
  "DT_RULE \<notin> granularities \<Longrightarrow> format_datetime DT_RULE now = Inl ValueError"
  unfolding granularities_def format_datetime_def by simp

text \<open>
  Claim C9. A granularity outside the enumerated set makes the time bucket, and with it
  the key, fail with the configuration error (\<open>ValueError\<close>) at the call; a granularity
  inside the set makes both return a string.
\<close>

theorem bad_granularity_raises:
  "(DT_RULE \<notin> granularities \<longrightarrow>
      format_datetime DT_RULE now = Inl ValueError \<and>
      build_s3_filename DT_RULE now mac filename = Inl ValueError) \<and>
   (DT_RULE \<in> granularities \<longrightarrow>
      (\<exists>s. format_datetime DT_RULE now = Inr s) \<and>
      (\<exists>k. build_s3_filename DT_RULE now mac filename = Inr k))"
proof (intro conjI impI)
  assume bad: "DT_RULE \<notin> granularities"
  then show "format_datetime DT_RULE now = Inl ValueError"
    by (rule format_datetime_unknown)
  then show "build_s3_filename DT_RULE now mac filename = Inl ValueError"
    by (simp add: build_s3_filename_def)
next
  assume good: "DT_RULE \<in> granularities"
  then show fd: "\<exists>s. format_datetime DT_RULE now = Inr s"
    by (rule format_datetime_known)
  then show "\<exists>k. build_s3_filename DT_RULE now mac filename = Inr k"
    by (auto simp: build_s3_filename_def)
qed

theorem bad_granularity_raises_witness:
  "''minutes'' \<notin> granularities \<and>
   format_datetime ''minutes'' \<lparr>year = 2024, month = 3, day = 9, hour = 7, minute = 5,
      second = 1, microsecond = 0\<rparr> = Inl ValueError \<and>
   ''days'' \<in> granularities \<and>
   build_s3_filename ''days'' \<lparr>year = 2024, month = 3, day = 9, hour = 7, minute = 5,
      second = 1, microsecond = 0\<rparr> ''aa'' ''f.txt'' = Inr ''aa/20240309/f.txt''"
proof -
  let ?t = "\<lparr>year = 2024, month = 3, day = 9, hour = 7, minute = 5,
      second = 1, microsecond = 0\<rparr>"
  have a: "''minutes'' \<notin> granularities" by (simp add: granularities_def)
  have b: "''days'' \<in> granularities" by (simp add: granularities_def)
  have c: "build_s3_filename ''days'' ?t ''aa'' ''f.txt'' = Inr ''aa/20240309/f.txt''"
    by (simp add: build_s3_filename_def format_datetime_def join_key_def dec2_def dec4_def
        digit_simps)
  from bad_granularity_raises [of "''minutes''" ?t "''aa''" "''f.txt''"] a
  have "format_datetime ''minutes'' ?t = Inl ValueError" by blast
  with a b c show ?thesis by blast
qed

lemma digit_inj: "a < 10 \<Longrightarrow> b < 10 \<Longrightarrow> digit a = digit b \<Longrightarrow> a = b"
  by (simp add: digit_def char_of_eq_iff take_bit_eq_mod)

lemma step10: "(x::nat) div 10 = y div 10 \<Longrightarrow> x mod 10 = y mod 10 \<Longrightarrow> x = y"
  by (metis div_mult_mod_eq)

lemma dec2_inj:
  assumes a: "a < 100" and b: "b < 100" and e: "dec2 a = dec2 b"
  shows "a = b"
proof -
  from e have "digit (a div 10 mod 10) = digit (b div 10 mod 10)"
    and "digit (a mod 10) = digit (b mod 10)"
    by (simp_all add: dec2_def)
  then have "a div 10 mod 10 = b div 10 mod 10" and lo: "a mod 10 = b mod 10"
    by (auto intro: digit_inj)
  moreover have "a div 10 < 10" "b div 10 < 10" using a b by simp_all
  ultimately have "a div 10 = b div 10" by simp
  then show ?thesis using lo by (rule step10)
qed

lemma dec4_inj:
  assumes a: "a < 10000" and b: "b < 10000" and e: "dec4 a = dec4 b"
  shows "a = b"
proof -
  from e have "digit (a div 1000 mod 10) = digit (b div 1000 mod 10)"
    and "digit (a div 100 mod 10) = digit (b div 100 mod 10)"
    and "digit (a div 10 mod 10) = digit (b div 10 mod 10)"
    and "digit (a mod 10) = digit (b mod 10)"
    by (simp_all add: dec4_def)
  then have d3: "a div 1000 mod 10 = b div 1000 mod 10"
    and d2: "a div 100 mod 10 = b div 100 mod 10"
    and d1: "a div 10 mod 10 = b div 10 mod 10"
    and d0: "a mod 10 = b mod 10"
    by (auto intro: digit_inj)
  have "a div 1000 < 10" "b div 1000 < 10" using a b by simp_all
  with d3 have "a div 1000 = b div 1000" by simp
  then have "a div 100 div 10 = b div 100 div 10"
    by (simp add: div_mult2_eq[symmetric])
  from this d2 have "a div 100 = b div 100" by (rule step10)
  then have "a div 10 div 10 = b div 10 div 10"
    by (simp add: div_mult2_eq[symmetric])
  from this d1 have "a div 10 = b div 10" by (rule step10)
  from this d0 show ?thesis by (rule step10)
qed

lemma length_dec [simp]: "length (dec2 n) = 2" "length (dec4 n) = 4"
  by (simp_all add: dec2_def dec4_def)

lemma wday_sunday: "(((n::nat) + 6) mod 7 + 1) mod 7 = n mod 7"
  by presburger

lemma week_shift:
  assumes "(b::nat) < n"
  shows "n - b - 1 + 7 - n mod 7 = 7 * (n div 7) + 6 - b"
proof -
  define q where "q = n div 7"
  define r where "r = n mod 7"
  have "n = 7 * q + r" "r < 7" by (simp_all add: q_def r_def)
  with assms have "n - b - 1 + 7 - r = 7 * q + 6 - b" by linarith
  then show ?thesis by (simp add: q_def r_def)
qed

lemma week_quotient:
  assumes "(b::nat) \<le> 7 * q + 6"
  shows "b div 7 \<le> q \<and> (7 * q + 6 - b) div 7 = q - b div 7"
proof -
  define c where "c = b div 7"
  define r where "r = b mod 7"
  have b: "b = 7 * c + r" and r: "r < 7" by (simp_all add: c_def r_def)
  with assms have cq: "c \<le> q" by linarith
  then obtain d where d: "q = c + d" using le_Suc_ex by blast
  have "7 * q + 6 - b = (6 - r) + d * 7" using b r d by simp
  moreover have "((6 - r) + d * 7) div 7 = d" using r by simp
  ultimately show ?thesis using d cq by (simp add: c_def)
qed

lemma week_of_year_ord:
  assumes "1 \<le> day t"
  shows "week_of_year t + days_before_year (year t) div 7 = ymd2ord t div 7"
proof -
  let ?b = "days_before_year (year t)"
  let ?n = "ymd2ord t"
  have lt: "?b < ?n" using assms by (simp add: ymd2ord_def)
  have yd: "tm_yday t = ?n - ?b - 1" by (simp add: tm_yday_def ymd2ord_def)
  have "week_of_year t = (?n - ?b - 1 + 7 - ?n mod 7) div 7"
    by (simp only: week_of_year_def yd tm_wday_def wday_sunday)
  also have "\<dots> = (7 * (?n div 7) + 6 - ?b) div 7"
    by (simp only: week_shift [OF lt])
  finally have w: "week_of_year t = (7 * (?n div 7) + 6 - ?b) div 7" .
  have le: "?b \<le> 7 * (?n div 7) + 6"
  proof -
    have "?n = 7 * (?n div 7) + ?n mod 7" by simp
    moreover have "?n mod 7 < 7" by simp
    ultimately have "?n \<le> 7 * (?n div 7) + 6" by linarith
    with lt show ?thesis by linarith
  qed
  from week_quotient [OF le] w show ?thesis by simp
qed

lemma days_before_month_le: "days_before_month y m \<le> 335"
proof -
  let ?xs = "[0, 0, 31, 59, 90, 120, 151, 181, 212, 243, 273, 304, 334::nat]"
  have "\<forall>x \<in> set ?xs. x \<le> 334" by simp
  moreover have "(if m \<le> 12 then m else 0) < length ?xs" by simp
  ultimately have "?xs ! (if m \<le> 12 then m else 0) \<le> 334"
    using nth_mem by blast
  then show ?thesis by (simp add: days_before_month_def)
qed

lemma days_in_month_le: "days_in_month y m \<le> 31"
  by (simp add: days_in_month_def)

lemma week_of_year_lt: "valid_datetime t \<Longrightarrow> week_of_year t < 100"
proof -
  assume v: "valid_datetime t"
  then have "day t \<le> 31"
    using days_in_month_le [of "year t" "month t"] by (simp add: valid_datetime_def)
  with days_before_month_le [of "year t" "month t"]
  have "tm_yday t + 7 - tm_wday t < 700" by (simp add: tm_yday_def)
  then show ?thesis by (simp add: week_of_year_def)
qed

lemma valid_bounds:
  assumes "valid_datetime t"
  shows "year t < 10000" "month t < 100" "day t < 100" "hour t < 100" "minute t < 100"
    "second t < 100" "1 \<le> day t"
  using assms days_in_month_le [of "year t" "month t"]
  by (simp_all add: valid_datetime_def)

lemma format_datetime_boundary:
  assumes v1: "valid_datetime a" and v2: "valid_datetime b"
    and bd: "boundary_between g a b"
  shows "format_datetime g a \<noteq> format_datetime g b"
proof
  assume eq: "format_datetime g a = format_datetime g b"
  note bs = valid_bounds [OF v1] valid_bounds [OF v2]
  have y: "dec4 (year a) = dec4 (year b) \<Longrightarrow> year a = year b"
    using bs by (blast intro: dec4_inj)
  have m: "dec2 (month a) = dec2 (month b) \<Longrightarrow> month a = month b"
    using bs by (blast intro: dec2_inj)
  have d: "dec2 (day a) = dec2 (day b) \<Longrightarrow> day a = day b"
    using bs by (blast intro: dec2_inj)
  have h: "dec2 (hour a) = dec2 (hour b) \<Longrightarrow> hour a = hour b"
    using bs by (blast intro: dec2_inj)
  have mi: "dec2 (minute a) = dec2 (minute b) \<Longrightarrow> minute a = minute b"
    using bs by (blast intro: dec2_inj)
  have s: "dec2 (second a) = dec2 (second b) \<Longrightarrow> second a = second b"
    using bs by (blast intro: dec2_inj)
  have w: "dec2 (week_of_year a) = dec2 (week_of_year b) \<Longrightarrow> week_of_year a = week_of_year b"
    using week_of_year_lt [OF v1] week_of_year_lt [OF v2] by (blast intro: dec2_inj)
  have wk: "year a = year b \<Longrightarrow> week_of_year a = week_of_year b \<Longrightarrow> sunday_week a = sunday_week b"
    using week_of_year_ord [of a] week_of_year_ord [of b] bs by (simp add: sunday_week_def)
  consider "g = ''seconds''" | "g = ''hours''" | "g = ''days''" | "g = ''weeks''"
    | "g = ''months''" | "g = ''years''"
    using bd by (auto simp: boundary_between_def split: if_splits)
  then show False
  proof cases
    case 1
    with eq bd y m d h mi s show False
      by (auto simp: format_datetime_def boundary_between_def)
  next
    case 2
    with eq bd y m d h show False
      by (auto simp: format_datetime_def boundary_between_def)
  next
    case 3
    with eq bd y m d show False
      by (auto simp: format_datetime_def boundary_between_def)
  next
    case 4
    with eq bd y w wk show False
      by (auto simp: format_datetime_def boundary_between_def)
  next
    case 5
    with eq bd y m show False
      by (auto simp: format_datetime_def boundary_between_def)
  next
    case 6
    with eq bd y show False
      by (auto simp: format_datetime_def boundary_between_def)
  qed
qed

lemma split_at_separator:
  assumes "c \<notin> set a" and "c \<notin> set a'" and "a @ c # r = a' @ c # r'"
  shows "a = a' \<and> r = r'"
  using assms
proof (induction a arbitrary: a')
  case Nil
  then show ?case by (cases a') auto
next
  case (Cons x xs)
  then show ?case by (cases a') auto
qed

lemma join_key_unfold:
  "join_key a b c = (if b \<noteq> [] then a @ CHR ''/'' # b @ CHR ''/'' # c else a @ CHR ''/'' # c)"
  by (simp add: join_key_def)

lemma join_key_inj:
  assumes na: "CHR ''/'' \<notin> set a" and nb: "CHR ''/'' \<notin> set b" and nc: "CHR ''/'' \<notin> set c"
    and na': "CHR ''/'' \<notin> set a'" and nb': "CHR ''/'' \<notin> set b'" and nc': "CHR ''/'' \<notin> set c'"
    and eq: "join_key a b c = join_key a' b' c'"
  shows "a = a' \<and> b = b' \<and> c = c'"
proof (cases "b = []")
  case bn: True
  show ?thesis
  proof (cases "b' = []")
    case True
    with bn eq have "a @ CHR ''/'' # c = a' @ CHR ''/'' # c'"
      by (simp add: join_key_unfold)
    from split_at_separator [OF na na' this] bn True show ?thesis by simp
  next
    case False
    with bn eq have "a @ CHR ''/'' # c = a' @ CHR ''/'' # (b' @ CHR ''/'' # c')"
      by (simp add: join_key_unfold)
    from split_at_separator [OF na na' this] have "c = b' @ CHR ''/'' # c'" by simp
    with nc show ?thesis by simp
  qed
next
  case bn: False
  show ?thesis
  proof (cases "b' = []")
    case True
    with bn eq have "a @ CHR ''/'' # (b @ CHR ''/'' # c) = a' @ CHR ''/'' # c'"
      by (simp add: join_key_unfold)
    from split_at_separator [OF na na' this] have "c' = b @ CHR ''/'' # c" by simp
    with nc' show ?thesis by simp
  next
    case False
    with bn eq have "a @ CHR ''/'' # (b @ CHR ''/'' # c) = a' @ CHR ''/'' # (b' @ CHR ''/'' # c')"
      by (simp add: join_key_unfold)
    from split_at_separator [OF na na' this]
    have aa: "a = a'" and r: "b @ CHR ''/'' # c = b' @ CHR ''/'' # c'" by simp_all
    from split_at_separator [OF nb nb' r] aa show ?thesis by simp
  qed
qed

lemma format_datetime_nonempty:
  "format_datetime g now = Inr s \<Longrightarrow> g \<noteq> ''never'' \<Longrightarrow> s \<noteq> []"
  by (auto simp: format_datetime_def dec4_def split: if_splits)

text \<open>
  Claim C4. With granularity "never" the key is \<open>mac/filename\<close>; with every other
  granularity of the set it is \<open>mac/time_bucket/filename\<close> for the non-empty bucket that
  \<open>format_datetime\<close> returns; and two different triples (source, bucket, name) whose
  components hold no \<open>/\<close> never give the same key.
\<close>

theorem key_format_and_injectivity:
  "build_s3_filename ''never'' now mac filename = Inr (mac @ ''/'' @ filename) \<and>
   (g \<in> granularities \<longrightarrow> g \<noteq> ''never'' \<longrightarrow>
      (\<exists>time_bucket. format_datetime g now = Inr time_bucket \<and> time_bucket \<noteq> [] \<and>
         build_s3_filename g now mac filename =
           Inr (mac @ ''/'' @ time_bucket @ ''/'' @ filename))) \<and>
   (CHR ''/'' \<notin> set a \<union> set b \<union> set c \<union> set a' \<union> set b' \<union> set c' \<longrightarrow>
      (a, b, c) \<noteq> (a', b', c') \<longrightarrow> join_key a b c \<noteq> join_key a' b' c')"
proof (intro conjI impI)
  show "build_s3_filename ''never'' now mac filename = Inr (mac @ ''/'' @ filename)"
    by (simp add: build_s3_filename_def format_datetime_def join_key_def)
next
  assume g: "g \<in> granularities" "g \<noteq> ''never''"
  from format_datetime_known [OF g(1)] obtain s where s: "format_datetime g now = Inr s"
    by blast
  from s g(2) have "s \<noteq> []" by (rule format_datetime_nonempty)
  with s show "\<exists>time_bucket. format_datetime g now = Inr time_bucket \<and> time_bucket \<noteq> [] \<and>
         build_s3_filename g now mac filename =
           Inr (mac @ ''/'' @ time_bucket @ ''/'' @ filename)"
    by (simp add: build_s3_filename_def join_key_def)
next
  assume ns: "CHR ''/'' \<notin> set a \<union> set b \<union> set c \<union> set a' \<union> set b' \<union> set c'"
    and ne: "(a, b, c) \<noteq> (a', b', c')"
  show "join_key a b c \<noteq> join_key a' b' c'"
  proof
    assume "join_key a b c = join_key a' b' c'"
    moreover from ns have "CHR ''/'' \<notin> set a" "CHR ''/'' \<notin> set b" "CHR ''/'' \<notin> set c"
      "CHR ''/'' \<notin> set a'" "CHR ''/'' \<notin> set b'" "CHR ''/'' \<notin> set c'" by simp_all
    ultimately have "a = a' \<and> b = b' \<and> c = c'" by (rule join_key_inj [rotated 6])
    with ne show False by simp
  qed
qed

theorem key_format_and_injectivity_witness:
  "''hours'' \<in> granularities \<and> ''hours'' \<noteq> ''never'' \<and>
   build_s3_filename ''hours'' \<lparr>year = 2024, month = 3, day = 9, hour = 7, minute = 5,
      second = 1, microsecond = 0\<rparr> ''b8:27'' ''log.csv'' = Inr ''b8:27/2024030907/log.csv'' \<and>
   CHR ''/'' \<notin> set ''ab'' \<union> set [] \<union> set ''c'' \<union> set ''a'' \<union> set ''b'' \<union> set ''c'' \<and>
   (''ab'', [], ''c'') \<noteq> (''a'', ''b'', ''c'') \<and>
   join_key ''ab'' [] ''c'' \<noteq> join_key ''a'' ''b'' ''c''"
proof -
  let ?t = "\<lparr>year = 2024, month = 3, day = 9, hour = 7, minute = 5,
      second = 1, microsecond = 0\<rparr>"
  have g: "''hours'' \<in> granularities" "''hours'' \<noteq> ''never''"
    by (simp_all add: granularities_def)
  have ns: "CHR ''/'' \<notin> set ''ab'' \<union> set [] \<union> set ''c'' \<union> set ''a'' \<union> set ''b'' \<union> set ''c''"
    by simp
  have ne: "(''ab'', [], ''c'') \<noteq> (''a'', ''b'', ''c'')" by simp
  have fd: "format_datetime ''hours'' ?t = Inr ''2024030907''"
    by (simp add: format_datetime_def dec2_def dec4_def digit_simps)
  note k = key_format_and_injectivity [of ?t "''b8:27''" "''log.csv''" "''hours''"
      "''ab''" "[]" "''c''" "''a''" "''b''" "''c''"]
  from k g fd have "build_s3_filename ''hours'' ?t ''b8:27'' ''log.csv'' = Inr ''b8:27/2024030907/log.csv''"
    by auto
  moreover from k ns ne have "join_key ''ab'' [] ''c'' \<noteq> join_key ''a'' ''b'' ''c''"
    by blast
  ultimately show ?thesis using g ns ne by blast
qed

text \<open>
  Claim C5. With granularity "never" the key does not depend on the clock reading; with
  any other granularity, two valid clock readings with a boundary of that granularity
  between them give different keys for the same source and name.
\<close>

theorem key_determinism:
  "build_s3_filename ''never'' t1 src name = build_s3_filename ''never'' t2 src name \<and>
   (valid_datetime t1 \<longrightarrow> valid_datetime t2 \<longrightarrow> boundary_between g t1 t2 \<longrightarrow>
      build_s3_filename g t1 src name \<noteq> build_s3_filename g t2 src name)"
proof (intro conjI impI)
  show "build_s3_filename ''never'' t1 src name = build_s3_filename ''never'' t2 src name"
    by (simp add: build_s3_filename_def format_datetime_def)
next
  assume v: "valid_datetime t1" "valid_datetime t2" and bd: "boundary_between g t1 t2"
  from bd have g: "g \<in> granularities" "g \<noteq> ''never''"
    by (auto simp: boundary_between_def granularities_def split: if_splits)
  from format_datetime_known [OF g(1)] obtain b1 b2
    where b: "format_datetime g t1 = Inr b1" "format_datetime g t2 = Inr b2"
    by blast
  from format_datetime_boundary [OF v bd] b have ne: "b1 \<noteq> b2" by simp
  from b g have "b1 \<noteq> []" "b2 \<noteq> []" by (blast dest: format_datetime_nonempty)+
  with b ne show "build_s3_filename g t1 src name \<noteq> build_s3_filename g t2 src name"
    by (simp add: build_s3_filename_def join_key_def)
qed

theorem key_determinism_witness:
  "valid_datetime \<lparr>year = 2024, month = 1, day = 6, hour = 23, minute = 59,
      second = 59, microsecond = 0\<rparr> \<and>
   valid_datetime \<lparr>year = 2024, month = 1, day = 7, hour = 0, minute = 0,
      second = 0, microsecond = 0\<rparr> \<and>
   boundary_between ''weeks'' \<lparr>year = 2024, month = 1, day = 6, hour = 23, minute = 59,
      second = 59, microsecond = 0\<rparr> \<lparr>year = 2024, month = 1, day = 7, hour = 0, minute = 0,
      second = 0, microsecond = 0\<rparr> \<and>
   build_s3_filename ''weeks'' \<lparr>year = 2024, month = 1, day = 6, hour = 23, minute = 59,
      second = 59, microsecond = 0\<rparr> ''dev1'' ''a.txt'' \<noteq>
   build_s3_filename ''weeks'' \<lparr>year = 2024, month = 1, day = 7, hour = 0, minute = 0,
      second = 0, microsecond = 0\<rparr> ''dev1'' ''a.txt''"
proof -
  let ?a = "\<lparr>year = 2024, month = 1, day = 6, hour = 23, minute = 59,
      second = 59, microsecond = 0\<rparr>"
  let ?b = "\<lparr>year = 2024, month = 1, day = 7, hour = 0, minute = 0,
      second = 0, microsecond = 0\<rparr>"
  have va: "valid_datetime ?a" by (simp add: valid_datetime_def days_in_month_def)
  have vb: "valid_datetime ?b" by (simp add: valid_datetime_def days_in_month_def)
  have bd: "boundary_between ''weeks'' ?a ?b"
    by (simp add: boundary_between_def sunday_week_def ymd2ord_def days_before_year_def
        days_before_month_def)
  from key_determinism [of ?a "''dev1''" "''a.txt''" ?b "''weeks''"] va vb bd
  show ?thesis by blast
qed

section \<open>Properties of the cache operations\<close>

lemma execute_Some:
  "execute st (Some t) = (case run st t of Inl e \<Rightarrow> Inl e | Inr t' \<Rightarrow> Inr (Some t'))"
  by (simp add: execute_def)

lemma ensure_database_exists_simps:
  "ensure_database_exists None = Some []"
  "ensure_database_exists (Some t) = Some t"
  by (simp_all add: ensure_database_exists_def execute_def)

lemma records_ensure: "records (ensure_database_exists db) = records db"
  by (cases db) (simp_all add: ensure_database_exists_simps records_def)

text \<open>
  Claim C3. When the listing fails with the code \<open>AllAccessDisabled\<close>, the reconciler prints
  the warning and returns without an exception; the rows of the cache are what they were
  (the only statement run is the creation of the table when it is missing). Every other
  failure of the listing leaves the function as the exception it is.
\<close>

theorem access_disabled_handling:
  "update_local_database now (Inl (ClientError ''AllAccessDisabled'')) db =
     (None, ensure_database_exists db,
      [Executed CREATE_TABLE_IF_NOT_EXISTS,
       Printed ''Access to the S3 bucket is disabled. Please check permissions.'']) \<and>
   records (ensure_database_exists db) = records db \<and>
   (e \<noteq> ClientError ''AllAccessDisabled'' \<longrightarrow>
      update_local_database now (Inl e) db =
        (Some e, ensure_database_exists db, [Executed CREATE_TABLE_IF_NOT_EXISTS]))"
proof (intro conjI impI)
  show "update_local_database now (Inl (ClientError ''AllAccessDisabled'')) db =
     (None, ensure_database_exists db,
      [Executed CREATE_TABLE_IF_NOT_EXISTS,
       Printed ''Access to the S3 bucket is disabled. Please check permissions.''])"
    by (simp add: update_local_database_def)
  show "records (ensure_database_exists db) = records db"
    by (rule records_ensure)
next
  assume "e \<noteq> ClientError ''AllAccessDisabled''"
  then show "update_local_database now (Inl e) db =
        (Some e, ensure_database_exists db, [Executed CREATE_TABLE_IF_NOT_EXISTS])"
    by (cases e) (simp_all add: update_local_database_def)
qed

theorem access_disabled_handling_witness:
  "ClientError ''NoSuchBucket'' \<noteq> ClientError ''AllAccessDisabled'' \<and>
   update_local_database (\<lambda>n. \<lparr>year = 2024, month = 3, day = 9, hour = 7, minute = 5,
       second = 1, microsecond = 0\<rparr>) (Inl (ClientError ''NoSuchBucket''))
     (Some [(''dev1/a.txt'', 10, ''2024-03-09T07:05:%'')]) =
     (Some (ClientError ''NoSuchBucket''), Some [(''dev1/a.txt'', 10, ''2024-03-09T07:05:%'')],
      [Executed CREATE_TABLE_IF_NOT_EXISTS])"
proof -
  have ne: "ClientError ''NoSuchBucket'' \<noteq> ClientError ''AllAccessDisabled''" by simp
  from access_disabled_handling [of "\<lambda>n. \<lparr>year = 2024, month = 3, day = 9, hour = 7,
       minute = 5, second = 1, microsecond = 0\<rparr>"
      "Some [(''dev1/a.txt'', 10, ''2024-03-09T07:05:%'')]" "ClientError ''NoSuchBucket''"] ne
  show ?thesis by (simp add: ensure_database_exists_simps)
qed


subsection \<open>Dictionaries\<close>

lemma map_of_dict_set: "map_of (dict_set d k v) = (map_of d)(k \<mapsto> v)"
  by (induction d k v rule: dict_set.induct) auto

lemma keys_dict_set: "fst ` set (dict_set d k v) = insert k (fst ` set d)"
  by (induction d k v rule: dict_set.induct) auto

lemma distinct_dict_set: "distinct (map fst d) \<Longrightarrow> distinct (map fst (dict_set d k v))"
proof (induction d k v rule: dict_set.induct)
  case (1 k v)
  then show ?case by simp
next
  case (2 k' v' d k v)
  from "2.prems" have "k' \<notin> fst ` set d" and dd: "distinct (map fst d)" by simp_all
  then have "k' \<noteq> k \<Longrightarrow> k' \<notin> fst ` set (dict_set d k v)"
    by (simp add: keys_dict_set)
  with "2.IH" dd "2.prems" show ?case by auto
qed

lemma dict_set_fresh: "k \<notin> set (map fst d) \<Longrightarrow> dict_set d k v = d @ [(k, v)]"
  by (induction d k v rule: dict_set.induct) auto

lemma foldl_dict_set_distinct:
  "distinct (map fst d) \<Longrightarrow> distinct (map fst (foldl (\<lambda>d (k, v). dict_set d k v) d pairs))"
  by (induction pairs arbitrary: d) (auto simp: distinct_dict_set)

lemma foldl_dict_set_map_of:
  "map_of (foldl (\<lambda>d (k, v). dict_set d k v) d pairs) = map_of d ++ map_of (rev pairs)"
  by (induction pairs arbitrary: d) (auto simp: map_of_dict_set)

lemma foldl_dict_set_fresh:
  "distinct (map fst (d @ pairs)) \<Longrightarrow> foldl (\<lambda>d (k, v). dict_set d k v) d pairs = d @ pairs"
proof (induction pairs arbitrary: d)
  case Nil
  then show ?case by simp
next
  case (Cons p pairs)
  obtain k v where p: "p = (k, v)" by (cases p)
  from Cons.prems p have fresh: "k \<notin> set (map fst d)" by auto
  from Cons.prems p have "distinct (map fst ((d @ [(k, v)]) @ pairs))" by auto
  from Cons.IH [OF this] fresh p show ?case by (simp add: dict_set_fresh)
qed

lemma distinct_dict_of: "distinct (map fst (dict_of pairs))"
  unfolding dict_of_def by (rule foldl_dict_set_distinct) simp

lemma map_of_dict_of: "map_of (dict_of pairs) = map_of (rev pairs)"
  unfolding dict_of_def by (simp add: foldl_dict_set_map_of)

lemma dict_of_distinct: "distinct (map fst pairs) \<Longrightarrow> dict_of pairs = pairs"
  unfolding dict_of_def using foldl_dict_set_fresh [of "[]" pairs] by simp

lemma keys_dict_of: "set (map fst (dict_of pairs)) = set (map fst pairs)"
proof -
  have "dom (map_of (dict_of pairs)) = dom (map_of (rev pairs))"
    by (simp only: map_of_dict_of)
  then show ?thesis by (simp add: dom_map_of_conv_image_fst)
qed

lemma map_of_dict_of_unique:
  assumes "(k, s) \<in> set pairs" and "\<forall>z. (k, z) \<in> set pairs \<longrightarrow> z = s"
  shows "map_of (dict_of pairs) k = Some s"
proof -
  from assms(1) have "k \<in> fst ` set (rev pairs)" by force
  then obtain z where z: "map_of (rev pairs) k = Some z"
    by (metis domD dom_map_of_conv_image_fst)
  then have "(k, z) \<in> set pairs" by (auto dest: map_of_SomeD)
  with assms(2) z show ?thesis by (simp add: map_of_dict_of)
qed

subsection \<open>Statements on a table\<close>

lemma map_fst_fetchall: "map fst (fetchall t) = map fst t"
  by (induction t) (auto simp: fetchall_def)

lemma keys_fetchall: "fst ` set (fetchall t) = fst ` set t"
  using map_fst_fetchall [of t] by (metis list.set_map)

lemma primary_key_fetchall: "primary_key t \<Longrightarrow> distinct (map fst (fetchall t))"
  by (simp add: primary_key_def map_fst_fetchall)

lemma fetchall_append: "fetchall (t @ t') = fetchall t @ fetchall t'"
  by (simp add: fetchall_def)

lemma sizes_insert:
  assumes "f \<notin> fst ` set t"
  shows "map_of (fetchall (t @ [(f, z, u)])) = (map_of (fetchall t))(f \<mapsto> z)"
proof
  fix x
  from assms have "map_of (fetchall t) f = None"
    by (simp add: map_of_eq_None_iff keys_fetchall)
  then show "map_of (fetchall (t @ [(f, z, u)])) x = ((map_of (fetchall t))(f \<mapsto> z)) x"
    by (auto simp: fetchall_append fetchall_def map_add_def split: option.splits)
qed

lemma sizes_update_other:
  "x \<noteq> f \<Longrightarrow>
   map_of (fetchall (map (\<lambda>(f', s, u'). if f' = f then (f', z, u) else (f', s, u')) t)) x =
   map_of (fetchall t) x"
  by (induction t) (auto simp: fetchall_def)

lemma sizes_update_same:
  "f \<in> fst ` set t \<Longrightarrow>
   map_of (fetchall (map (\<lambda>(f', s, u'). if f' = f then (f', z, u) else (f', s, u')) t)) f = Some z"
  by (induction t) (auto simp: fetchall_def)

lemma sizes_update:
  assumes "f \<in> fst ` set t"
  shows "map_of (fetchall (map (\<lambda>(f', s, u'). if f' = f then (f', z, u) else (f', s, u')) t)) =
         (map_of (fetchall t))(f \<mapsto> z)"
proof
  fix x
  show "map_of (fetchall (map (\<lambda>(f', s, u'). if f' = f then (f', z, u) else (f', s, u')) t)) x =
         ((map_of (fetchall t))(f \<mapsto> z)) x"
    using sizes_update_other [of x f z u t] sizes_update_same [OF assms, of z u]
    by (cases "x = f") simp_all
qed

lemma map_fst_update:
  "map fst (map (\<lambda>(f', s, u'). if f' = f then (f', z, u) else (f', s, u')) t) = map fst t"
  by (induction t) auto

lemma sizes_delete:
  "map_of (fetchall (filter (\<lambda>(f', s, u). f' \<noteq> f) t)) = (map_of (fetchall t))(f := None)"
  by (induction t) (auto simp: fetchall_def)

lemma primary_key_filter: "primary_key t \<Longrightarrow> primary_key (filter P t)"
  by (simp add: primary_key_def distinct_map_filter)

subsection \<open>The loops of the reconciler\<close>

lemma sync_item_effect:
  assumes v: "view c = Some t" and pk: "primary_key t"
    and ex: "map_of existing filename = map_of (fetchall t) filename"
  shows "\<exists>c' t'. sync_item now existing filename sz c = (None, c') \<and> view c' = Some t' \<and>
     primary_key t' \<and> map_of (fetchall t') = (map_of (fetchall t))(filename \<mapsto> sz) \<and>
     persisted c' = persisted c"
proof (cases "map_of (fetchall t) filename")
  case None
  then have fresh: "filename \<notin> fst ` set t"
    by (simp add: map_of_eq_None_iff keys_fetchall)
  let ?u = "strftime_DATETIME_FORMAT (now (clock c))"
  let ?t' = "t @ [(filename, sz, ?u)]"
  from None ex v fresh
  have "\<exists>c'. sync_item now existing filename sz c = (None, c') \<and> view c' = Some ?t' \<and>
      persisted c' = persisted c"
    by (simp add: sync_item_def execute_Some Let_def)
  moreover from pk fresh have "primary_key ?t'" by (simp add: primary_key_def)
  moreover have "map_of (fetchall ?t') = (map_of (fetchall t))(filename \<mapsto> sz)"
    using fresh by (rule sizes_insert)
  ultimately show ?thesis by blast
next
  case (Some old)
  then have "(filename, old) \<in> set (fetchall t)" by (rule map_of_SomeD)
  then have "filename \<in> fst ` set (fetchall t)" by force
  then have present: "filename \<in> fst ` set t" by (simp add: keys_fetchall)
  show ?thesis
  proof (cases "old = sz")
    case True
    with Some ex v
    have "\<exists>c'. sync_item now existing filename sz c = (None, c') \<and> view c' = Some t \<and>
        persisted c' = persisted c"
      by (simp add: sync_item_def Let_def)
    moreover from Some True have "(map_of (fetchall t))(filename \<mapsto> sz) = map_of (fetchall t)"
      by (simp add: map_upd_triv)
    ultimately show ?thesis using pk by auto
  next
    case False
    let ?u = "strftime_DATETIME_FORMAT (now (clock c))"
    let ?t' = "map (\<lambda>(f, s, u). if f = filename then (f, sz, ?u) else (f, s, u)) t"
    from Some ex v False
    have "\<exists>c'. sync_item now existing filename sz c = (None, c') \<and> view c' = Some ?t' \<and>
        persisted c' = persisted c"
      by (simp add: sync_item_def execute_Some Let_def)
    moreover from pk have "primary_key ?t'" by (simp only: primary_key_def map_fst_update)
    moreover have "map_of (fetchall ?t') = (map_of (fetchall t))(filename \<mapsto> sz)"
      using present by (rule sizes_update)
    ultimately show ?thesis by blast
  qed
qed

lemma sync_items_effect:
  assumes "view c = Some t" and "primary_key t" and "distinct (map fst items)"
    and "\<forall>k \<in> fst ` set items. map_of existing k = map_of (fetchall t) k"
  shows "\<exists>c' t'. sync_items now existing items c = (None, c') \<and> view c' = Some t' \<and>
     primary_key t' \<and> map_of (fetchall t') = map_of (fetchall t) ++ map_of items \<and>
     persisted c' = persisted c"
  using assms
proof (induction items arbitrary: c t)
  case Nil
  then show ?case by simp
next
  case (Cons p items)
  obtain k z where p: "p = (k, z)" by (cases p)
  from Cons.prems p have ex: "map_of existing k = map_of (fetchall t) k" by simp
  from sync_item_effect [OF Cons.prems(1,2) ex, of now z]
  obtain c1 t1 where s1: "sync_item now existing k z c = (None, c1)"
    and v1: "view c1 = Some t1" and pk1: "primary_key t1"
    and m1: "map_of (fetchall t1) = (map_of (fetchall t))(k \<mapsto> z)"
    and p1: "persisted c1 = persisted c" by blast
  from Cons.prems p have d: "distinct (map fst items)" and nk: "k \<notin> fst ` set items" by auto
  have ex1: "\<forall>k' \<in> fst ` set items. map_of existing k' = map_of (fetchall t1) k'"
  proof
    fix k' assume k': "k' \<in> fst ` set items"
    with nk have "k' \<noteq> k" by auto
    moreover from Cons.prems(4) k' have "map_of existing k' = map_of (fetchall t) k'"
      by auto
    ultimately show "map_of existing k' = map_of (fetchall t1) k'"
      by (simp add: m1)
  qed
  from Cons.IH [OF v1 pk1 d ex1]
  obtain c' t' where s2: "sync_items now existing items c1 = (None, c')"
    and v2: "view c' = Some t'" and pk2: "primary_key t'"
    and m2: "map_of (fetchall t') = map_of (fetchall t1) ++ map_of items"
    and p2: "persisted c' = persisted c1" by blast
  from nk have "map_of items k = None" by (simp add: map_of_eq_None_iff)
  then have "map_of (fetchall t1) ++ map_of items = map_of (fetchall t) ++ map_of (p # items)"
    unfolding m1 p by (auto simp: map_add_def fun_eq_iff split: option.splits)
  with m2 have m3: "map_of (fetchall t') = map_of (fetchall t) ++ map_of (p # items)"
    by (simp only:)
  from s1 s2 p have s3: "sync_items now existing (p # items) c = (None, c')" by simp
  from p1 p2 have p3: "persisted c' = persisted c" by simp
  show ?case
  proof (intro exI conjI)
    show "sync_items now existing (p # items) c = (None, c')" by (rule s3)
    show "view c' = Some t'" by (rule v2)
    show "primary_key t'" by (rule pk2)
    show "map_of (fetchall t') = map_of (fetchall t) ++ map_of (p # items)" by (rule m3)
    show "persisted c' = persisted c" by (rule p3)
  qed
qed

lemma sync_items_noop:
  "\<forall>(k, s) \<in> set items. map_of existing k = Some s \<Longrightarrow>
   sync_items now existing items c = (None, c\<lparr>clock := clock c + length items\<rparr>)"
proof (induction items arbitrary: c)
  case Nil
  then show ?case by simp
next
  case (Cons p items)
  obtain k z where p: "p = (k, z)" by (cases p)
  from Cons.prems p have "map_of existing k = Some z" by simp
  then have "sync_item now existing k z c = (None, c\<lparr>clock := clock c + 1\<rparr>)"
    by (simp add: sync_item_def Let_def)
  moreover from Cons.prems have "\<forall>(k, s) \<in> set items. map_of existing k = Some s" by simp
  from Cons.IH [OF this, of "c\<lparr>clock := clock c + 1\<rparr>"]
  have "sync_items now existing items (c\<lparr>clock := clock c + 1\<rparr>) =
      (None, c\<lparr>clock := clock c + length (p # items)\<rparr>)" by simp
  ultimately show ?case by (simp add: p)
qed

lemma delete_missing_effect:
  assumes "view c = Some t"
  shows "\<exists>c'. delete_missing current ks c = (None, c') \<and>
     view c' = Some (filter (\<lambda>r. fst r \<in> fst ` set current \<or> fst r \<notin> set ks) t) \<and>
     persisted c' = persisted c"
  using assms
proof (induction ks arbitrary: c t)
  case Nil
  then show ?case by simp
next
  case (Cons k ks)
  show ?case
  proof (cases "k \<in> fst ` set current")
    case True
    then have d: "delete_item current k c = (None, c)" by (simp add: delete_item_def)
    from Cons.IH [OF Cons.prems]
    obtain c' where r: "delete_missing current ks c = (None, c')"
      and v: "view c' = Some (filter (\<lambda>r. fst r \<in> fst ` set current \<or> fst r \<notin> set ks) t)"
      and p: "persisted c' = persisted c" by blast
    have "filter (\<lambda>r. fst r \<in> fst ` set current \<or> fst r \<notin> set ks) t =
          filter (\<lambda>r. fst r \<in> fst ` set current \<or> fst r \<notin> set (k # ks)) t"
      using True by (intro filter_cong) auto
    with d r v p show ?thesis by simp
  next
    case False
    let ?t1 = "filter (\<lambda>(f, s, u). f \<noteq> k) t"
    let ?c1 = "c\<lparr>view := Some ?t1,
        trace := trace c @ [Executed (DELETE k), Printed (''Deleted from database: '' @ k)]\<rparr>"
    from False Cons.prems have d: "delete_item current k c = (None, ?c1)"
      by (simp add: delete_item_def execute_Some)
    have v1: "view ?c1 = Some ?t1" by simp
    from Cons.IH [OF v1]
    obtain c' where r: "delete_missing current ks ?c1 = (None, c')"
      and v: "view c' = Some (filter (\<lambda>r. fst r \<in> fst ` set current \<or> fst r \<notin> set ks) ?t1)"
      and p: "persisted c' = persisted ?c1" by blast
    have "filter (\<lambda>r. fst r \<in> fst ` set current \<or> fst r \<notin> set ks) ?t1 =
          filter (\<lambda>r. fst r \<in> fst ` set current \<or> fst r \<notin> set (k # ks)) t"
      using False by (auto simp: split_def intro: filter_cong)
    with d r v p show ?thesis by simp
  qed
qed

lemma delete_missing_noop:
  "set ks \<subseteq> fst ` set current \<Longrightarrow> delete_missing current ks c = (None, c)"
  by (induction ks) (simp_all add: delete_item_def)

lemma sizes_filter:
  "map_of (fetchall (filter (\<lambda>r. Q (fst r)) t)) = map_of (fetchall t) |` {k. Q k}"
  by (induction t) (auto simp: fetchall_def restrict_map_def fun_eq_iff)

lemma well_formed_ensure:
  assumes "well_formed db"
  shows "\<exists>t. ensure_database_exists db = Some t \<and> primary_key t \<and> set t = records db"
  using assms
  by (cases db) (simp_all add: ensure_database_exists_simps well_formed_def primary_key_def
      records_def)

lemma reconcile_result:
  assumes wf: "well_formed db"
  shows "\<exists>t' tr. update_local_database now (Inr response) db = (None, Some t', tr) \<and>
     primary_key t' \<and> map_of (fetchall t') = map_of (dict_of (get_Contents response))"
proof -
  from well_formed_ensure [OF wf] obtain t
    where db1: "ensure_database_exists db = Some t" and pk: "primary_key t" by blast
  let ?existing = "dict_of (fetchall t)"
  let ?current = "dict_of (get_Contents response)"
  let ?c0 = "\<lparr>clock = 0, persisted = Some t, view = Some t,
      trace = [Executed CREATE_TABLE_IF_NOT_EXISTS] @ [Executed SELECT_ALL]\<rparr>"
  have ex: "?existing = fetchall t"
    using pk by (intro dict_of_distinct primary_key_fetchall)
  have v0: "view ?c0 = Some t" by simp
  have agree: "\<forall>k \<in> fst ` set ?current. map_of ?existing k = map_of (fetchall t) k"
    by (simp add: ex)
  from sync_items_effect [OF v0 pk distinct_dict_of agree, of now]
  obtain c1 t1 where s1: "sync_items now ?existing ?current ?c0 = (None, c1)"
    and v1: "view c1 = Some t1" and pk1: "primary_key t1"
    and m1: "map_of (fetchall t1) = map_of (fetchall t) ++ map_of ?current" by blast
  let ?Q = "\<lambda>k. k \<in> fst ` set ?current \<or> k \<notin> set (map fst ?existing)"
  let ?t2 = "filter (\<lambda>r. ?Q (fst r)) t1"
  from delete_missing_effect [OF v1, of ?current "map fst ?existing"]
  obtain c2 where s2: "delete_missing ?current (map fst ?existing) c1 = (None, c2)"
    and v2: "view c2 = Some ?t2" by blast
  have pk2: "primary_key ?t2" using pk1 by (rule primary_key_filter)
  have sf: "map_of (fetchall ?t2) = map_of (fetchall t1) |` {k. ?Q k}"
    by (rule sizes_filter [of ?Q t1])
  have pw: "(map_of (fetchall t1) |` {k. ?Q k}) x = map_of ?current x" for x
  proof -
    show ?thesis
    proof (cases "x \<in> fst ` set ?current")
      case True
      then obtain z where z: "map_of ?current x = Some z"
        by (metis domD dom_map_of_conv_image_fst)
      with True show ?thesis
        by (simp add: m1 restrict_map_def map_add_def)
    next
      case False
      then have n: "map_of ?current x = None" by (simp add: map_of_eq_None_iff)
      show ?thesis
      proof (cases "x \<in> fst ` set t")
        case True
        with False show ?thesis
          by (simp add: restrict_map_def n ex keys_fetchall)
      next
        case False
        then have "map_of (fetchall t) x = None"
          by (simp add: map_of_eq_None_iff keys_fetchall)
        then show ?thesis
          by (simp add: m1 restrict_map_def map_add_def n)
      qed
    qed
  qed
  have m2: "map_of (fetchall ?t2) = map_of ?current"
    unfolding sf using pw by (rule ext)
  have "update_local_database now (Inr response) db = (None, Some ?t2, trace c2)"
    using db1 s1 s2 v2 by (simp add: update_local_database_def Let_def)
  with pk2 m2 show ?thesis by blast
qed

lemma set_of_distinct_alists:
  assumes "distinct (map fst xs)" and "distinct (map fst ys)" and "map_of xs = map_of ys"
  shows "set xs = set ys"
  using assms by (simp add: map_of_inject_set)

text \<open>
  Claim C1. For every cache that respects its primary key and every listing the store
  returns, the reconciler returns without an exception, and the (identity, size) pairs
  of the cache are then those of the listing as \<open>current_files\<close> holds it; for a listing
  with one entry per identity, as a bucket gives, they are exactly the pairs of the
  listing: absent identities are gone, new ones are there, sizes agree.
\<close>

theorem reconcile_converges:
  "well_formed db \<longrightarrow>
     (\<exists>db' tr. update_local_database now (Inr response) db = (None, db', tr) \<and>
        well_formed db' \<and>
        list_all_records db' = set (dict_of (get_Contents response)) \<and>
        (distinct (map fst (get_Contents response)) \<longrightarrow>
           list_all_records db' = set (get_Contents response)))"
proof
  assume wf: "well_formed db"
  from reconcile_result [OF wf, of now response]
  obtain t' tr where r: "update_local_database now (Inr response) db = (None, Some t', tr)"
    and pk: "primary_key t'"
    and m: "map_of (fetchall t') = map_of (dict_of (get_Contents response))" by blast
  have s: "set (fetchall t') = set (dict_of (get_Contents response))"
    using primary_key_fetchall [OF pk] distinct_dict_of m by (rule set_of_distinct_alists)
  have wf': "well_formed (Some t')" using pk by (simp add: well_formed_def)
  have l: "list_all_records (Some t') = set (dict_of (get_Contents response))"
    using s by (simp add: list_all_records_def)
  have "distinct (map fst (get_Contents response)) \<longrightarrow>
      list_all_records (Some t') = set (get_Contents response)"
    using l by (simp add: dict_of_distinct)
  with r wf' l show "\<exists>db' tr. update_local_database now (Inr response) db = (None, db', tr) \<and>
        well_formed db' \<and>
        list_all_records db' = set (dict_of (get_Contents response)) \<and>
        (distinct (map fst (get_Contents response)) \<longrightarrow>
           list_all_records db' = set (get_Contents response))"
    by blast
qed


lemma reconcile_unfold:
  assumes wf: "well_formed db"
  shows "\<exists>t c1 c2. ensure_database_exists db = Some t \<and> primary_key t \<and>
     sync_items now (fetchall t) (dict_of (get_Contents response))
       \<lparr>clock = 0, persisted = Some t, view = Some t,
        trace = [Executed CREATE_TABLE_IF_NOT_EXISTS, Executed SELECT_ALL]\<rparr> = (None, c1) \<and>
     delete_missing (dict_of (get_Contents response)) (map fst (fetchall t)) c1 = (None, c2) \<and>
     update_local_database now (Inr response) db = (None, view c2, trace c2)"
proof -
  from well_formed_ensure [OF wf] obtain t
    where db1: "ensure_database_exists db = Some t" and pk: "primary_key t" by blast
  let ?current = "dict_of (get_Contents response)"
  let ?c0 = "\<lparr>clock = 0, persisted = Some t, view = Some t,
      trace = [Executed CREATE_TABLE_IF_NOT_EXISTS, Executed SELECT_ALL]\<rparr>"
  have ex: "dict_of (fetchall t) = fetchall t"
    using pk by (intro dict_of_distinct primary_key_fetchall)
  have v0: "view ?c0 = Some t" by simp
  have agree: "\<forall>k \<in> fst ` set ?current. map_of (fetchall t) k = map_of (fetchall t) k"
    by simp
  from sync_items_effect [OF v0 pk distinct_dict_of agree, of now]
  obtain c1 t1 where s1: "sync_items now (fetchall t) ?current ?c0 = (None, c1)"
    and v1: "view c1 = Some t1" by blast
  from delete_missing_effect [OF v1, of ?current "map fst (fetchall t)"]
  obtain c2 where s2: "delete_missing ?current (map fst (fetchall t)) c1 = (None, c2)" by blast
  have "update_local_database now (Inr response) db = (None, view c2, trace c2)"
    using db1 s1 s2 by (simp add: update_local_database_def Let_def ex)
  with db1 pk s1 s2 show ?thesis by blast
qed

text \<open>
  Claim C6. A second pass right after a pass that ended, on the same listing, runs no
  \<^verbatim>\<open>INSERT\<close>, no \<^verbatim>\<open>UPDATE\<close> and no \<^verbatim>\<open>DELETE\<close>: its trace is the creation of the
  table (which exists) and the \<^verbatim>\<open>SELECT\<close>, and the database it leaves is the one it found,
  row for row. The first pass always ends without an exception.
\<close>

theorem reconcile_idempotent:
  "well_formed db \<longrightarrow> update_local_database now (Inr response) db = (r, db1, tr1) \<longrightarrow>
     r = None \<and>
     update_local_database now' (Inr response) db1 =
       (None, db1, [Executed CREATE_TABLE_IF_NOT_EXISTS, Executed SELECT_ALL])"
proof (intro impI)
  assume wf: "well_formed db"
    and run1: "update_local_database now (Inr response) db = (r, db1, tr1)"
  let ?current = "dict_of (get_Contents response)"
  from reconcile_result [OF wf, of now response] run1
  obtain t' where r: "r = None" and db1: "db1 = Some t'" and pk: "primary_key t'"
    and m: "map_of (fetchall t') = map_of ?current" by auto
  let ?c0 = "\<lparr>clock = 0, persisted = Some t', view = Some t',
      trace = [Executed CREATE_TABLE_IF_NOT_EXISTS, Executed SELECT_ALL]\<rparr>"
  have ex: "dict_of (fetchall t') = fetchall t'"
    using pk by (intro dict_of_distinct primary_key_fetchall)
  have same: "\<forall>(k, s) \<in> set ?current. map_of (fetchall t') k = Some s"
    using distinct_dict_of [of "get_Contents response"] by (auto simp: m)
  have s1: "sync_items now' (fetchall t') ?current ?c0 =
      (None, ?c0\<lparr>clock := clock ?c0 + length ?current\<rparr>)"
    using same by (rule sync_items_noop)
  have "dom (map_of (fetchall t')) = dom (map_of ?current)" by (simp only: m)
  then have keys: "set (map fst (fetchall t')) \<subseteq> fst ` set ?current"
    by (simp add: dom_map_of_conv_image_fst)
  have s2: "delete_missing ?current (map fst (fetchall t'))
      (?c0\<lparr>clock := clock ?c0 + length ?current\<rparr>) =
      (None, ?c0\<lparr>clock := clock ?c0 + length ?current\<rparr>)"
    using keys by (rule delete_missing_noop)
  have "update_local_database now' (Inr response) (Some t') =
       (None, Some t', [Executed CREATE_TABLE_IF_NOT_EXISTS, Executed SELECT_ALL])"
    using s1 s2
    by (simp add: update_local_database_def Let_def ex ensure_database_exists_simps)
  with r db1 show "r = None \<and>
     update_local_database now' (Inr response) db1 =
       (None, db1, [Executed CREATE_TABLE_IF_NOT_EXISTS, Executed SELECT_ALL])"
    by simp
qed

subsection \<open>Evaluation on concrete inputs\<close>

lemma stamp: "strftime_DATETIME_FORMAT (clock0 n) = ''2024-03-09T07:05:%''"
  by (simp add: strftime_DATETIME_FORMAT_def clock0_def dec2_def dec4_def digit_simps)

lemmas eval_simps = update_local_database_def ensure_database_exists_simps dict_of_def
  fetchall_def sync_item_def delete_item_def execute_Some get_Contents_def Let_def stamp

theorem reconcile_converges_witness:
  "well_formed (Some [(''dev1/a.txt'', 10, ''t0''), (''dev1/c.txt'', 1, ''t1''),
      (''dev1/b.txt'', 4, ''t2'')]) \<and>
   distinct (map fst (get_Contents (Some [(''dev1/a.txt'', 10), (''dev1/b.txt'', 5)]))) \<and>
   update_local_database clock0 (Inr (Some [(''dev1/a.txt'', 10), (''dev1/b.txt'', 5)]))
     (Some [(''dev1/a.txt'', 10, ''t0''), (''dev1/c.txt'', 1, ''t1''), (''dev1/b.txt'', 4, ''t2'')]) =
   (None, Some [(''dev1/a.txt'', 10, ''t0''), (''dev1/b.txt'', 5, ''2024-03-09T07:05:%'')],
    [Executed CREATE_TABLE_IF_NOT_EXISTS, Executed SELECT_ALL,
     Executed (UPDATE 5 ''2024-03-09T07:05:%'' ''dev1/b.txt''),
     Printed ''Updated file in database: dev1/b.txt'',
     Executed (DELETE ''dev1/c.txt''), Printed ''Deleted from database: dev1/c.txt'']) \<and>
   list_all_records (Some [(''dev1/a.txt'', 10, ''t0''), (''dev1/b.txt'', 5, ''2024-03-09T07:05:%'')]) =
     set [(''dev1/a.txt'', 10), (''dev1/b.txt'', 5)]"
proof -
  let ?db = "Some [(''dev1/a.txt'', 10, ''t0''), (''dev1/c.txt'', 1, ''t1''),
      (''dev1/b.txt'', 4::int, ''t2'')]"
  let ?resp = "Some [(''dev1/a.txt'', 10::int), (''dev1/b.txt'', 5)]"
  have wf: "well_formed ?db" by (simp add: well_formed_def primary_key_def)
  have d: "distinct (map fst (get_Contents ?resp))" by (simp add: get_Contents_def)
  have ev: "update_local_database clock0 (Inr ?resp) ?db =
     (None, Some [(''dev1/a.txt'', 10, ''t0''), (''dev1/b.txt'', 5, ''2024-03-09T07:05:%'')],
      [Executed CREATE_TABLE_IF_NOT_EXISTS, Executed SELECT_ALL,
       Executed (UPDATE 5 ''2024-03-09T07:05:%'' ''dev1/b.txt''),
       Printed ''Updated file in database: dev1/b.txt'',
       Executed (DELETE ''dev1/c.txt''), Printed ''Deleted from database: dev1/c.txt''])"
    by (simp add: eval_simps)
  from reconcile_converges [of ?db clock0 ?resp] wf d ev
  have "list_all_records (Some [(''dev1/a.txt'', 10, ''t0''),
      (''dev1/b.txt'', 5, ''2024-03-09T07:05:%'')]) = set (get_Contents ?resp)"
    by auto
  then have "list_all_records (Some [(''dev1/a.txt'', 10, ''t0''),
      (''dev1/b.txt'', 5, ''2024-03-09T07:05:%'')]) = set [(''dev1/a.txt'', 10), (''dev1/b.txt'', 5)]"
    by (simp add: get_Contents_def)
  with wf d ev show ?thesis by blast
qed

theorem reconcile_idempotent_witness:
  "well_formed (Some [(''dev1/a.txt'', 10, ''t0''), (''dev1/c.txt'', 1, ''t1''),
      (''dev1/b.txt'', 4, ''t2'')]) \<and>
   update_local_database clock0 (Inr (Some [(''dev1/a.txt'', 10), (''dev1/b.txt'', 5)]))
     (Some [(''dev1/a.txt'', 10, ''t0''), (''dev1/c.txt'', 1, ''t1''), (''dev1/b.txt'', 4, ''t2'')]) =
   (None, Some [(''dev1/a.txt'', 10, ''t0''), (''dev1/b.txt'', 5, ''2024-03-09T07:05:%'')],
    [Executed CREATE_TABLE_IF_NOT_EXISTS, Executed SELECT_ALL,
     Executed (UPDATE 5 ''2024-03-09T07:05:%'' ''dev1/b.txt''),
     Printed ''Updated file in database: dev1/b.txt'',
     Executed (DELETE ''dev1/c.txt''), Printed ''Deleted from database: dev1/c.txt'']) \<and>
   update_local_database clock0 (Inr (Some [(''dev1/a.txt'', 10), (''dev1/b.txt'', 5)]))
     (Some [(''dev1/a.txt'', 10, ''t0''), (''dev1/b.txt'', 5, ''2024-03-09T07:05:%'')]) =
   (None, Some [(''dev1/a.txt'', 10, ''t0''), (''dev1/b.txt'', 5, ''2024-03-09T07:05:%'')],
    [Executed CREATE_TABLE_IF_NOT_EXISTS, Executed SELECT_ALL])"
proof -
  let ?db = "Some [(''dev1/a.txt'', 10, ''t0''), (''dev1/c.txt'', 1, ''t1''),
      (''dev1/b.txt'', 4::int, ''t2'')]"
  let ?resp = "Some [(''dev1/a.txt'', 10::int), (''dev1/b.txt'', 5)]"
  have wf: "well_formed ?db" by (simp add: well_formed_def primary_key_def)
  have ev: "update_local_database clock0 (Inr ?resp) ?db =
     (None, Some [(''dev1/a.txt'', 10, ''t0''), (''dev1/b.txt'', 5, ''2024-03-09T07:05:%'')],
      [Executed CREATE_TABLE_IF_NOT_EXISTS, Executed SELECT_ALL,
       Executed (UPDATE 5 ''2024-03-09T07:05:%'' ''dev1/b.txt''),
       Printed ''Updated file in database: dev1/b.txt'',
       Executed (DELETE ''dev1/c.txt''), Printed ''Deleted from database: dev1/c.txt''])"
    by (simp add: eval_simps)
  from reconcile_idempotent [of ?db clock0 ?resp _ _ _ clock0] wf ev
  have "update_local_database clock0 (Inr ?resp)
     (Some [(''dev1/a.txt'', 10, ''t0''), (''dev1/b.txt'', 5, ''2024-03-09T07:05:%'')]) =
   (None, Some [(''dev1/a.txt'', 10, ''t0''), (''dev1/b.txt'', 5, ''2024-03-09T07:05:%'')],
    [Executed CREATE_TABLE_IF_NOT_EXISTS, Executed SELECT_ALL])"
    by blast
  with wf ev show ?thesis by blast
qed

subsection \<open>Rows the reconciler leaves alone\<close>

lemma row_kept_by_update:
  assumes "f \<noteq> k" and "(k, s, u) \<in> set t"
  shows "(k, s, u) \<in> set (map (\<lambda>(f', s', u'). if f' = f then (f', sz, upd) else (f', s', u')) t)"
  using assms by (induction t) auto

lemma run_keeps_row:
  assumes r: "run st t = Inr t'" and w: "\<not> writes_key st k" and row: "(k, s, u) \<in> set t"
  shows "(k, s, u) \<in> set t'"
proof (cases st)
  case CREATE_TABLE_IF_NOT_EXISTS
  with r row show ?thesis by simp
next
  case SELECT_ALL
  with r row show ?thesis by simp
next
  case (SELECT_WHERE f sz)
  with r row show ?thesis by simp
next
  case (INSERT f sz upd)
  with r row show ?thesis by (auto split: if_splits)
next
  case (UPDATE sz upd f)
  with w have ne: "f \<noteq> k" by simp
  from r UPDATE
  have t': "t' = map (\<lambda>(f', s', u'). if f' = f then (f', sz, upd) else (f', s', u')) t"
    by simp
  show ?thesis unfolding t' using ne row by (rule row_kept_by_update)
next
  case (DELETE f)
  with w have "f \<noteq> k" by simp
  with r row DELETE show ?thesis by auto
next
  case (INSERT_OR_REPLACE f sz upd)
  with w have "f \<noteq> k" by simp
  with r row INSERT_OR_REPLACE show ?thesis by auto
qed

lemma untouched_clock [simp]: "untouched k s u (c\<lparr>clock := n\<rparr>) = untouched k s u c"
  by (simp add: untouched_def)

lemma step_untouched:
  assumes "untouched k s u c" and "execute st (view c) = Inr v" and "\<not> writes_key st k"
  shows "untouched k s u (c\<lparr>view := v, trace := trace c @ [Executed st, Printed m]\<rparr>)"
proof -
  from assms(1) obtain t where v: "view c = Some t" and row: "(k, s, u) \<in> set t"
    and tr: "\<forall>st. Executed st \<in> set (trace c) \<longrightarrow> \<not> writes_key st k"
    by (auto simp: untouched_def)
  from assms(2) v obtain t' where t': "run st t = Inr t'" and vt: "v = Some t'"
    by (auto simp: execute_Some split: sum.splits)
  from run_keeps_row [OF t' assms(3) row] have "(k, s, u) \<in> set t'" .
  with vt tr assms(3) show ?thesis by (auto simp: untouched_def)
qed

lemma sync_item_frame:
  assumes inv: "untouched k s u c" and ex: "map_of existing k = Some s"
    and eq: "filename = k \<longrightarrow> sz = s"
    and run: "sync_item now existing filename sz c = (None, c')"
  shows "untouched k s u c'"
proof (cases "filename = k")
  case True
  with ex eq run have "c' = c\<lparr>clock := clock c + 1\<rparr>"
    by (simp add: sync_item_def Let_def)
  with inv show ?thesis by simp
next
  case False
  let ?u = "strftime_DATETIME_FORMAT (now (clock c))"
  let ?c1 = "c\<lparr>clock := clock c + 1\<rparr>"
  have inv1: "untouched k s u ?c1" using inv by simp
  show ?thesis
  proof (cases "map_of existing filename")
    case None
    with run obtain v where x: "execute (INSERT filename sz ?u) (view ?c1) = Inr v"
      and c': "c' = ?c1\<lparr>view := v, trace := trace ?c1 @
          [Executed (INSERT filename sz ?u), Printed (''Added to database: '' @ filename)]\<rparr>"
      by (auto simp: sync_item_def Let_def split: sum.splits)
    from False have "\<not> writes_key (INSERT filename sz ?u) k" by simp
    from step_untouched [OF inv1 x this] c' show ?thesis by simp
  next
    case (Some old)
    show ?thesis
    proof (cases "old = sz")
      case True
      with Some run have "c' = ?c1" by (simp add: sync_item_def Let_def)
      with inv1 show ?thesis by simp
    next
      case ne: False
      with Some run obtain v where x: "execute (UPDATE sz ?u filename) (view ?c1) = Inr v"
        and c': "c' = ?c1\<lparr>view := v, trace := trace ?c1 @
            [Executed (UPDATE sz ?u filename),
             Printed (''Updated file in database: '' @ filename)]\<rparr>"
        by (auto simp: sync_item_def Let_def split: sum.splits)
      from False have "\<not> writes_key (UPDATE sz ?u filename) k" by simp
      from step_untouched [OF inv1 x this] c' show ?thesis by simp
    qed
  qed
qed

lemma sync_items_frame:
  assumes "untouched k s u c" and "map_of existing k = Some s"
    and "\<forall>z. (k, z) \<in> set items \<longrightarrow> z = s"
    and "sync_items now existing items c = (None, c')"
  shows "untouched k s u c'"
  using assms
proof (induction items arbitrary: c)
  case Nil
  then show ?case by simp
next
  case (Cons p items)
  obtain f z where p: "p = (f, z)" by (cases p)
  from Cons.prems(4) p obtain c1 where s1: "sync_item now existing f z c = (None, c1)"
    and s2: "sync_items now existing items c1 = (None, c')"
    by (auto split: prod.splits option.splits)
  from Cons.prems(3) p have e: "f = k \<longrightarrow> z = s" by simp
  from sync_item_frame [OF Cons.prems(1,2) e s1] have "untouched k s u c1" .
  moreover from Cons.prems(3) have "\<forall>z. (k, z) \<in> set items \<longrightarrow> z = s" by simp
  ultimately show ?case using Cons.IH Cons.prems(2) s2 by blast
qed

lemma delete_missing_frame:
  assumes "untouched k s u c" and "k \<in> fst ` set current"
    and "delete_missing current ks c = (None, c')"
  shows "untouched k s u c'"
  using assms
proof (induction ks arbitrary: c)
  case Nil
  then show ?case by simp
next
  case (Cons f ks)
  from Cons.prems(3) obtain c1 where d1: "delete_item current f c = (None, c1)"
    and d2: "delete_missing current ks c1 = (None, c')"
    by (auto split: prod.splits option.splits)
  have "untouched k s u c1"
  proof (cases "f \<in> fst ` set current")
    case True
    with d1 have "c1 = c" by (simp add: delete_item_def)
    with Cons.prems(1) show ?thesis by simp
  next
    case False
    with d1 obtain v where x: "execute (DELETE f) (view c) = Inr v"
      and c1: "c1 = c\<lparr>view := v, trace := trace c @
          [Executed (DELETE f), Printed (''Deleted from database: '' @ f)]\<rparr>"
      by (auto simp: delete_item_def split: sum.splits)
    from False Cons.prems(2) have "\<not> writes_key (DELETE f) k" by auto
    from step_untouched [OF Cons.prems(1) x this] c1 show ?thesis by simp
  qed
  with Cons.IH Cons.prems(2) d2 show ?case by blast
qed


text \<open>
  Claim C7. A record whose identity is in the listing with the size the cache holds is
  left as it is by the reconciler: the same row, with its size and its \<open>updated_at\<close>, is
  in the cache afterwards, and no statement of the pass writes its filename.
\<close>

theorem matching_record_untouched:
  "well_formed db \<longrightarrow> (k, s, u) \<in> records db \<longrightarrow>
   (k, s) \<in> set (get_Contents response) \<longrightarrow>
   (\<forall>z. (k, z) \<in> set (get_Contents response) \<longrightarrow> z = s) \<longrightarrow>
     (\<exists>db' tr. update_local_database now (Inr response) db = (None, db', tr) \<and>
        well_formed db' \<and> (k, s, u) \<in> records db' \<and>
        (\<forall>st. Executed st \<in> set tr \<longrightarrow> \<not> writes_key st k))"
proof (intro impI)
  assume wf: "well_formed db" and row: "(k, s, u) \<in> records db"
    and inl: "(k, s) \<in> set (get_Contents response)"
    and uniq: "\<forall>z. (k, z) \<in> set (get_Contents response) \<longrightarrow> z = s"
  let ?current = "dict_of (get_Contents response)"
  from reconcile_unfold [OF wf, of now response]
  obtain t c1 c2 where db1: "ensure_database_exists db = Some t" and pk: "primary_key t"
    and s1: "sync_items now (fetchall t) ?current
       \<lparr>clock = 0, persisted = Some t, view = Some t,
        trace = [Executed CREATE_TABLE_IF_NOT_EXISTS, Executed SELECT_ALL]\<rparr> = (None, c1)"
    and s2: "delete_missing ?current (map fst (fetchall t)) c1 = (None, c2)"
    and res: "update_local_database now (Inr response) db = (None, view c2, trace c2)"
    by blast
  let ?c0 = "\<lparr>clock = 0, persisted = Some t, view = Some t,
        trace = [Executed CREATE_TABLE_IF_NOT_EXISTS, Executed SELECT_ALL]\<rparr>"
  from records_ensure [of db] db1 row have rt: "(k, s, u) \<in> set t"
    by (simp add: records_def)
  then have u0: "untouched k s u ?c0" by (auto simp: untouched_def)
  from rt have "(k, s) \<in> set (fetchall t)" by (force simp: fetchall_def)
  with primary_key_fetchall [OF pk] have ex: "map_of (fetchall t) k = Some s"
    by (rule map_of_is_SomeI)
  from inl uniq have cur: "map_of ?current k = Some s" by (rule map_of_dict_of_unique)
  have one: "\<forall>z. (k, z) \<in> set ?current \<longrightarrow> z = s"
  proof (intro allI impI)
    fix z assume "(k, z) \<in> set ?current"
    with distinct_dict_of have "map_of ?current k = Some z" by (rule map_of_is_SomeI)
    with cur show "z = s" by simp
  qed
  from cur have mem: "k \<in> fst ` set ?current"
    by (metis domI dom_map_of_conv_image_fst)
  from sync_items_frame [OF u0 ex one s1] have "untouched k s u c1" .
  from delete_missing_frame [OF this mem s2] have u2: "untouched k s u c2" .
  from reconcile_result [OF wf, of now response] res
  obtain t' where v2: "view c2 = Some t'" and pk': "primary_key t'" by auto
  from u2 v2 have "(k, s, u) \<in> records (view c2)"
    and "\<forall>st. Executed st \<in> set (trace c2) \<longrightarrow> \<not> writes_key st k"
    by (auto simp: untouched_def records_def)
  moreover from v2 pk' have "well_formed (view c2)" by (simp add: well_formed_def)
  ultimately show "\<exists>db' tr. update_local_database now (Inr response) db = (None, db', tr) \<and>
        well_formed db' \<and> (k, s, u) \<in> records db' \<and>
        (\<forall>st. Executed st \<in> set tr \<longrightarrow> \<not> writes_key st k)"
    using res by blast
qed

theorem matching_record_untouched_witness:
  "well_formed (Some [(''dev1/a.txt'', 10, ''t0''), (''dev1/c.txt'', 1, ''t1''),
      (''dev1/b.txt'', 4, ''t2'')]) \<and>
   (''dev1/a.txt'', 10, ''t0'') \<in> records (Some [(''dev1/a.txt'', 10, ''t0''),
      (''dev1/c.txt'', 1, ''t1''), (''dev1/b.txt'', 4, ''t2'')]) \<and>
   (''dev1/a.txt'', 10) \<in> set (get_Contents (Some [(''dev1/a.txt'', 10), (''dev1/b.txt'', 5)])) \<and>
   update_local_database clock0 (Inr (Some [(''dev1/a.txt'', 10), (''dev1/b.txt'', 5)]))
     (Some [(''dev1/a.txt'', 10, ''t0''), (''dev1/c.txt'', 1, ''t1''), (''dev1/b.txt'', 4, ''t2'')]) =
   (None, Some [(''dev1/a.txt'', 10, ''t0''), (''dev1/b.txt'', 5, ''2024-03-09T07:05:%'')],
    [Executed CREATE_TABLE_IF_NOT_EXISTS, Executed SELECT_ALL,
     Executed (UPDATE 5 ''2024-03-09T07:05:%'' ''dev1/b.txt''),
     Printed ''Updated file in database: dev1/b.txt'',
     Executed (DELETE ''dev1/c.txt''), Printed ''Deleted from database: dev1/c.txt'']) \<and>
   (''dev1/a.txt'', 10, ''t0'') \<in> records (Some [(''dev1/a.txt'', 10, ''t0''),
      (''dev1/b.txt'', 5, ''2024-03-09T07:05:%'')])"
proof -
  let ?db = "Some [(''dev1/a.txt'', 10, ''t0''), (''dev1/c.txt'', 1, ''t1''),
      (''dev1/b.txt'', 4::int, ''t2'')]"
  let ?resp = "Some [(''dev1/a.txt'', 10::int), (''dev1/b.txt'', 5)]"
  have wf: "well_formed ?db" by (simp add: well_formed_def primary_key_def)
  have row: "(''dev1/a.txt'', 10, ''t0'') \<in> records ?db" by (simp add: records_def)
  have inl: "(''dev1/a.txt'', 10) \<in> set (get_Contents ?resp)" by (simp add: get_Contents_def)
  have uniq: "\<forall>z. (''dev1/a.txt'', z) \<in> set (get_Contents ?resp) \<longrightarrow> z = 10"
    by (simp add: get_Contents_def)
  have ev: "update_local_database clock0 (Inr ?resp) ?db =
     (None, Some [(''dev1/a.txt'', 10, ''t0''), (''dev1/b.txt'', 5, ''2024-03-09T07:05:%'')],
      [Executed CREATE_TABLE_IF_NOT_EXISTS, Executed SELECT_ALL,
       Executed (UPDATE 5 ''2024-03-09T07:05:%'' ''dev1/b.txt''),
       Printed ''Updated file in database: dev1/b.txt'',
       Executed (DELETE ''dev1/c.txt''), Printed ''Deleted from database: dev1/c.txt''])"
    by (simp add: eval_simps)
  from matching_record_untouched [of ?db "''dev1/a.txt''" 10 "''t0''" ?resp clock0]
    wf row inl uniq ev
  have "(''dev1/a.txt'', 10, ''t0'') \<in> records (Some [(''dev1/a.txt'', 10, ''t0''),
      (''dev1/b.txt'', 5, ''2024-03-09T07:05:%'')])"
    by auto
  with wf row inl ev show ?thesis by blast
qed

subsection \<open>The upload loop\<close>

lemma needFile_no_table:
  "needFile DT_RULE t None mac filename sz =
     (case build_s3_filename DT_RULE t mac filename of
        Inl e \<Rightarrow> (Inl e, None, [])
      | Inr key \<Rightarrow> (Inl OperationalError, None, []))"
  by (simp add: needFile_def execute_def split: sum.splits)

lemma needFile_table:
  "needFile DT_RULE t (Some rows) mac filename sz =
     (case build_s3_filename DT_RULE t mac filename of
        Inl e \<Rightarrow> (Inl e, Some rows, [])
      | Inr key \<Rightarrow>
          (Inr (fetchone key sz rows = None), Some rows, [Executed (SELECT_WHERE key sz)]))"
  by (simp add: needFile_def execute_Some split: sum.splits)

lemma execute_upsert:
  "execute (INSERT_OR_REPLACE k s u) v =
     (case v of None \<Rightarrow> Inl OperationalError
      | Some t \<Rightarrow> Inr (Some (filter (\<lambda>(f, s, u). f \<noteq> k) t @ [(k, s, u)])))"
  by (simp add: execute_def split: option.splits)

text \<open>
  Claim C10. In one turn of the inner loop the clock is read once inside \<open>needFile\<close> and
  once more for the upload key. When both readings give the same time bucket (as they
  always do for "never"), the key of the \<^verbatim>\<open>SELECT\<close> that decides, the key of the upload
  and the key of the \<^verbatim>\<open>INSERT OR REPLACE\<close> are one and the same: the turn adds to the
  trace nothing, or the \<^verbatim>\<open>SELECT\<close> on that key, or the \<^verbatim>\<open>SELECT\<close>, the upload and (unless
  the table is missing) the upsert, all on that key.
\<close>

theorem decision_and_upload_keys_agree:
  "format_datetime ''never'' t1 = format_datetime ''never'' t2 \<and>
   (format_datetime DT_RULE (now (clock c)) = format_datetime DT_RULE (now (clock c + 1)) \<longrightarrow>
    upload_one DT_RULE now upload_file file_path mac filename sz c = (r, c') \<longrightarrow>
      (case build_s3_filename DT_RULE (now (clock c)) mac filename of
         Inl e \<Rightarrow> r = Some e \<and> trace c' = trace c \<and> view c' = view c
       | Inr key \<Rightarrow>
           (r = Some OperationalError \<and> persisted c = None \<and> trace c' = trace c \<and>
              view c' = view c) \<or>
           (trace c' = trace c @ [Executed (SELECT_WHERE key sz)] \<and> view c' = view c) \<or>
           (r = Some OperationalError \<and> view c = None \<and> view c' = view c \<and>
              trace c' = trace c @ [Executed (SELECT_WHERE key sz), Uploaded file_path key,
                 Printed (''Uploaded: '' @ key)]) \<or>
           (\<exists>updated_at. r = None \<and>
              trace c' = trace c @ [Executed (SELECT_WHERE key sz), Uploaded file_path key,
                 Printed (''Uploaded: '' @ key),
                 Executed (INSERT_OR_REPLACE key sz updated_at)] \<and>
              execute (INSERT_OR_REPLACE key sz updated_at) (view c) = Inr (view c'))))"
proof (intro conjI impI)
  show "format_datetime ''never'' t1 = format_datetime ''never'' t2"
    by (simp add: format_datetime_def)
next
  assume same: "format_datetime DT_RULE (now (clock c)) =
      format_datetime DT_RULE (now (clock c + 1))"
    and run: "upload_one DT_RULE now upload_file file_path mac filename sz c = (r, c')"
  from same have b2: "build_s3_filename DT_RULE (now (Suc (clock c))) mac filename =
      build_s3_filename DT_RULE (now (clock c)) mac filename"
    by (simp add: build_s3_filename_def)
  show "case build_s3_filename DT_RULE (now (clock c)) mac filename of
         Inl e \<Rightarrow> r = Some e \<and> trace c' = trace c \<and> view c' = view c
       | Inr key \<Rightarrow>
           (r = Some OperationalError \<and> persisted c = None \<and> trace c' = trace c \<and>
              view c' = view c) \<or>
           (trace c' = trace c @ [Executed (SELECT_WHERE key sz)] \<and> view c' = view c) \<or>
           (r = Some OperationalError \<and> view c = None \<and> view c' = view c \<and>
              trace c' = trace c @ [Executed (SELECT_WHERE key sz), Uploaded file_path key,
                 Printed (''Uploaded: '' @ key)]) \<or>
           (\<exists>updated_at. r = None \<and>
              trace c' = trace c @ [Executed (SELECT_WHERE key sz), Uploaded file_path key,
                 Printed (''Uploaded: '' @ key),
                 Executed (INSERT_OR_REPLACE key sz updated_at)] \<and>
              execute (INSERT_OR_REPLACE key sz updated_at) (view c) = Inr (view c'))"
  proof (cases "build_s3_filename DT_RULE (now (clock c)) mac filename")
    case (Inl e)
    with run show ?thesis
      by (cases "persisted c")
        (auto simp: upload_one_def needFile_no_table needFile_table Let_def)
  next
    case (Inr key)
    show ?thesis
    proof (cases "persisted c")
      case None
      with run Inr show ?thesis
        by (auto simp: upload_one_def needFile_no_table Let_def)
    next
      case (Some rows)
      show ?thesis
      proof (cases "fetchone key sz rows = None")
        case False
        with run Inr Some show ?thesis
          by (auto simp: upload_one_def needFile_table Let_def)
      next
        case True
        show ?thesis
        proof (cases "upload_file file_path key")
          case (Some e)
          with run Inr \<open>persisted c = Some rows\<close> True b2 show ?thesis
            by (auto simp: upload_one_def needFile_table Let_def)
        next
          case None
          with run Inr \<open>persisted c = Some rows\<close> True b2 show ?thesis
            by (cases "view c")
              (auto simp: upload_one_def needFile_table Let_def execute_upsert)
        qed
      qed
    qed
  qed
qed

lemma upserts_follow_uploads_append:
  assumes "upserts_follow_uploads upload_file q xs"
    and "\<forall>q'. upserts_follow_uploads upload_file q' ys"
  shows "upserts_follow_uploads upload_file q (xs @ ys)"
  using assms
proof (induction xs arbitrary: q)
  case Nil
  then show ?case by simp
next
  case (Cons e xs)
  then show ?case
    by (cases e) (auto split: statement.splits)
qed

lemma chunk_refl: "chunk upload_file c c"
  by (simp add: chunk_def)

lemma chunk_trans:
  assumes "chunk upload_file c c1" and "chunk upload_file c1 c2"
  shows "chunk upload_file c c2"
proof -
  from assms obtain e1 e2 where t1: "trace c1 = trace c @ e1" and t2: "trace c2 = trace c1 @ e2"
    and u1: "\<forall>q. upserts_follow_uploads upload_file q e1"
    and u2: "\<forall>q. upserts_follow_uploads upload_file q e2"
    and p: "persisted c2 = persisted c"
    by (auto simp: chunk_def)
  from u1 u2 have "\<forall>q. upserts_follow_uploads upload_file q (e1 @ e2)"
    by (blast intro: upserts_follow_uploads_append)
  moreover from t1 t2 have "trace c2 = trace c @ (e1 @ e2)" by simp
  ultimately show ?thesis using p unfolding chunk_def by blast
qed

lemma upload_one_chunk:
  assumes run: "upload_one DT_RULE now upload_file file_path mac filename sz c = (r, c')"
  shows "chunk upload_file c c'"
proof (cases "persisted c")
  case None
  with run show ?thesis
    by (auto simp: upload_one_def needFile_no_table Let_def chunk_def split: sum.splits)
next
  case (Some rows)
  show ?thesis
  proof (cases "build_s3_filename DT_RULE (now (clock c)) mac filename")
    case (Inl e)
    with run Some show ?thesis
      by (auto simp: upload_one_def needFile_table Let_def chunk_def)
  next
    case (Inr key)
    show ?thesis
    proof (cases "fetchone key sz rows = None")
      case False
      with run Inr Some show ?thesis
        by (auto simp: upload_one_def needFile_table Let_def chunk_def)
    next
      case True
      show ?thesis
      proof (cases "build_s3_filename DT_RULE (now (Suc (clock c))) mac filename")
        case (Inl e)
        with run Inr Some True show ?thesis
          by (auto simp: upload_one_def needFile_table Let_def chunk_def)
      next
        case k2: (Inr key2)
        show ?thesis
        proof (cases "upload_file file_path key2")
          case (Some e)
          with run Inr \<open>persisted c = Some rows\<close> True k2 show ?thesis
            by (auto simp: upload_one_def needFile_table Let_def chunk_def)
        next
          case None
          with run Inr \<open>persisted c = Some rows\<close> True k2 show ?thesis
            by (cases "view c")
              (auto simp: upload_one_def needFile_table Let_def execute_upsert chunk_def)
        qed
      qed
    qed
  qed
qed

lemma upload_mac_files_chunk:
  "upload_mac_files DT_RULE now upload_file mac_path mac entries c = (r, c') \<Longrightarrow>
   chunk upload_file c c'"
proof (induction entries arbitrary: c)
  case Nil
  then show ?case by (simp add: chunk_refl)
next
  case (Cons p entries)
  obtain filename nd where p: "p = (filename, nd)" by (cases p)
  show ?case
  proof (cases nd)
    case (RegularFile sz)
    obtain r1 c1 where u: "upload_one DT_RULE now upload_file (path_join mac_path filename)
        mac filename sz c = (r1, c1)" by (cases "upload_one DT_RULE now upload_file
        (path_join mac_path filename) mac filename sz c")
    from upload_one_chunk [OF u] have s1: "chunk upload_file c c1" .
    show ?thesis
    proof (cases r1)
      case None
      with Cons.prems p RegularFile u
      have "upload_mac_files DT_RULE now upload_file mac_path mac entries c1 = (r, c')" by simp
      from Cons.IH [OF this] s1 show ?thesis by (blast intro: chunk_trans)
    next
      case (Some e)
      with Cons.prems p RegularFile u have "c' = c1" by simp
      with s1 show ?thesis by simp
    qed
  next
    case (Directory es)
    with Cons p show ?thesis by simp
  next
    case Special
    with Cons p show ?thesis by simp
  qed
qed

lemma upload_macs_chunk:
  "upload_macs DT_RULE now upload_file data_directory listing c = (r, c') \<Longrightarrow>
   chunk upload_file c c'"
proof (induction listing arbitrary: c)
  case Nil
  then show ?case by (simp add: chunk_refl)
next
  case (Cons p listing)
  obtain mac nd where p: "p = (mac, nd)" by (cases p)
  show ?case
  proof (cases nd)
    case (Directory entries)
    obtain r1 c1 where u: "upload_mac_files DT_RULE now upload_file
        (path_join data_directory mac) mac entries c = (r1, c1)"
      by (cases "upload_mac_files DT_RULE now upload_file
        (path_join data_directory mac) mac entries c")
    from upload_mac_files_chunk [OF u] have s1: "chunk upload_file c c1" .
    show ?thesis
    proof (cases r1)
      case None
      with Cons.prems p Directory u
      have "upload_macs DT_RULE now upload_file data_directory listing c1 = (r, c')" by simp
      from Cons.IH [OF this] s1 show ?thesis by (blast intro: chunk_trans)
    next
      case (Some e)
      with Cons.prems p Directory u have "c' = c1" by simp
      with s1 show ?thesis by simp
    qed
  next
    case (RegularFile sz)
    with Cons p show ?thesis by simp
  next
    case Special
    with Cons p show ?thesis by simp
  qed
qed

text \<open>
  Claim C8. In every run of \<open>upload_files\<close>, ended or aborted, each \<^verbatim>\<open>INSERT OR REPLACE\<close>
  comes right after an upload of the same key that returned without an exception; and
  when the run is aborted by an exception (a failed upload among them) the committed
  database is the one the run started from: the upserts of the run were never committed.
\<close>

theorem upload_path_atomicity:
  "upload_files DT_RULE now upload_file data_directory listing db = (r, db', tr) \<longrightarrow>
     upserts_follow_uploads upload_file None tr \<and> (r \<noteq> None \<longrightarrow> db' = db)"
proof
  assume run: "upload_files DT_RULE now upload_file data_directory listing db = (r, db', tr)"
  let ?c0 = "\<lparr>clock = 0, persisted = db, view = db, trace = []\<rparr>"
  obtain r1 c1 where u: "upload_macs DT_RULE now upload_file data_directory listing ?c0 = (r1, c1)"
    by (cases "upload_macs DT_RULE now upload_file data_directory listing ?c0")
  from upload_macs_chunk [OF u] have ch: "chunk upload_file ?c0 c1" .
  then have p: "persisted c1 = db" and t: "upserts_follow_uploads upload_file None (trace c1)"
    by (auto simp: chunk_def)
  from run u have "tr = trace c1" and "r = r1" and "r1 \<noteq> None \<longrightarrow> db' = persisted c1"
    by (auto simp: upload_files_def split: option.splits)
  with p t show "upserts_follow_uploads upload_file None tr \<and> (r \<noteq> None \<longrightarrow> db' = db)"
    by simp
qed

lemma bucket0: "format_datetime ''hours'' (clock0 n) = Inr ''2024030907''"
  by (simp add: format_datetime_def clock0_def dec2_def dec4_def digit_simps)

lemma key0: "build_s3_filename ''hours'' (clock0 n) mac filename =
    Inr (mac @ ''/2024030907/'' @ filename)"
  by (simp add: build_s3_filename_def bucket0 join_key_def)

lemmas upload_simps = upload_files_def upload_one_def needFile_table needFile_no_table key0
  path_join_def fetchone_def execute_upsert Let_def stamp

theorem decision_and_upload_keys_agree_witness:
  "format_datetime ''hours'' (clock0 (clock \<lparr>clock = 0, persisted = Some [], view = Some [],
       trace = []\<rparr>)) =
   format_datetime ''hours'' (clock0 (clock \<lparr>clock = 0, persisted = Some [], view = Some [],
       trace = []\<rparr> + 1)) \<and>
   upload_one ''hours'' clock0 (\<lambda>p k. None) ''/data/dev1/a.txt'' ''dev1'' ''a.txt'' 10
     \<lparr>clock = 0, persisted = Some [], view = Some [], trace = []\<rparr> =
     (None, \<lparr>clock = 3, persisted = Some [],
        view = Some [(''dev1/2024030907/a.txt'', 10, ''2024-03-09T07:05:%'')],
        trace = [Executed (SELECT_WHERE ''dev1/2024030907/a.txt'' 10),
                 Uploaded ''/data/dev1/a.txt'' ''dev1/2024030907/a.txt'',
                 Printed ''Uploaded: dev1/2024030907/a.txt'',
                 Executed (INSERT_OR_REPLACE ''dev1/2024030907/a.txt'' 10
                    ''2024-03-09T07:05:%'')]\<rparr>) \<and>
   build_s3_filename ''hours'' (clock0 0) ''dev1'' ''a.txt'' = Inr ''dev1/2024030907/a.txt'' \<and>
   execute (INSERT_OR_REPLACE ''dev1/2024030907/a.txt'' 10 ''2024-03-09T07:05:%'') (Some []) =
     Inr (Some [(''dev1/2024030907/a.txt'', 10, ''2024-03-09T07:05:%'')])"
proof -
  let ?c = "\<lparr>clock = 0, persisted = Some [], view = Some [], trace = []\<rparr>"
  let ?c' = "\<lparr>clock = 3, persisted = Some [],
        view = Some [(''dev1/2024030907/a.txt'', 10, ''2024-03-09T07:05:%'')],
        trace = [Executed (SELECT_WHERE ''dev1/2024030907/a.txt'' 10),
                 Uploaded ''/data/dev1/a.txt'' ''dev1/2024030907/a.txt'',
                 Printed ''Uploaded: dev1/2024030907/a.txt'',
                 Executed (INSERT_OR_REPLACE ''dev1/2024030907/a.txt'' 10
                    ''2024-03-09T07:05:%'')]\<rparr>"
  have same: "format_datetime ''hours'' (clock0 (clock ?c)) =
      format_datetime ''hours'' (clock0 (clock ?c + 1))"
    by (simp only: bucket0)
  have run: "upload_one ''hours'' clock0 (\<lambda>p k. None) ''/data/dev1/a.txt'' ''dev1'' ''a.txt'' 10 ?c =
      (None, ?c')"
    by (simp add: upload_simps)
  have key: "build_s3_filename ''hours'' (clock0 0) ''dev1'' ''a.txt'' = Inr ''dev1/2024030907/a.txt''"
    by (simp add: key0)
  note agree = decision_and_upload_keys_agree [THEN conjunct2, rule_format, OF same run]
  then have "execute (INSERT_OR_REPLACE ''dev1/2024030907/a.txt'' 10 ''2024-03-09T07:05:%'')
      (Some []) = Inr (Some [(''dev1/2024030907/a.txt'', 10, ''2024-03-09T07:05:%'')])"
    by (simp add: key0)
  with same run key show ?thesis by blast
qed

theorem upload_path_atomicity_witness:
  "upload_files ''hours'' clock0
     (\<lambda>p k. if k = ''dev1/2024030907/b.txt'' then Some (RemoteError ''transfer failed'') else None)
     ''/data'' [(''dev1'', Directory [(''a.txt'', RegularFile 10), (''b.txt'', RegularFile 20)]),
                (''notes'', RegularFile 3)]
     (Some [(''dev1/old.txt'', 7, ''t0'')]) =
   (Some (RemoteError ''transfer failed''), Some [(''dev1/old.txt'', 7, ''t0'')],
    [Executed (SELECT_WHERE ''dev1/2024030907/a.txt'' 10),
     Uploaded ''/data/dev1/a.txt'' ''dev1/2024030907/a.txt'',
     Printed ''Uploaded: dev1/2024030907/a.txt'',
     Executed (INSERT_OR_REPLACE ''dev1/2024030907/a.txt'' 10 ''2024-03-09T07:05:%''),
     Executed (SELECT_WHERE ''dev1/2024030907/b.txt'' 20)]) \<and>
   upserts_follow_uploads
     (\<lambda>p k. if k = ''dev1/2024030907/b.txt'' then Some (RemoteError ''transfer failed'') else None)
     None
     [Executed (SELECT_WHERE ''dev1/2024030907/a.txt'' 10),
      Uploaded ''/data/dev1/a.txt'' ''dev1/2024030907/a.txt'',
      Printed ''Uploaded: dev1/2024030907/a.txt'',
      Executed (INSERT_OR_REPLACE ''dev1/2024030907/a.txt'' 10 ''2024-03-09T07:05:%''),
      Executed (SELECT_WHERE ''dev1/2024030907/b.txt'' 20)] \<and>
   Some (RemoteError ''transfer failed'') \<noteq> None"
proof -
  let ?up = "\<lambda>(p::string) k. if k = ''dev1/2024030907/b.txt''
      then Some (RemoteError ''transfer failed'') else None"
  let ?tr = "[Executed (SELECT_WHERE ''dev1/2024030907/a.txt'' 10),
     Uploaded ''/data/dev1/a.txt'' ''dev1/2024030907/a.txt'',
     Printed ''Uploaded: dev1/2024030907/a.txt'',
     Executed (INSERT_OR_REPLACE ''dev1/2024030907/a.txt'' 10 ''2024-03-09T07:05:%''),
     Executed (SELECT_WHERE ''dev1/2024030907/b.txt'' 20)]"
  have run: "upload_files ''hours'' clock0 ?up ''/data''
      [(''dev1'', Directory [(''a.txt'', RegularFile 10), (''b.txt'', RegularFile 20)]),
       (''notes'', RegularFile 3)]
      (Some [(''dev1/old.txt'', 7, ''t0'')]) =
    (Some (RemoteError ''transfer failed''), Some [(''dev1/old.txt'', 7, ''t0'')], ?tr)"
    by (simp add: upload_simps)
  from upload_path_atomicity [of "''hours''" clock0 ?up "''/data''"
      "[(''dev1'', Directory [(''a.txt'', RegularFile 10), (''b.txt'', RegularFile 20)]),
       (''notes'', RegularFile 3)]" "Some [(''dev1/old.txt'', 7, ''t0'')]"
      "Some (RemoteError ''transfer failed'')" "Some [(''dev1/old.txt'', 7, ''t0'')]" ?tr] run
  have "upserts_follow_uploads ?up None ?tr" by blast
  with run show ?thesis by simp
qed

subsection \<open>The upload decision and the commit\<close>




end
